theory Spec2Isabelle
  imports Main "HOL-Library.Word"
begin

unbundle bit_operations_syntax

section \<open>Constants and types of the headers\<close>

text \<open>
  The headers \<^verbatim>\<open>raid_bus.h\<close>, \<^verbatim>\<open>tagline_driver.h\<close> and \<^verbatim>\<open>raid_cache.h\<close> are not part of
  the sources.  Every constant the three C files take from them is a field of the record
  \<open>config\<close> and thereby a parameter of the model.  The request-type and disk-status
  constants are C enumeration constants (type \<^verbatim>\<open>int\<close>), the sizes are counts.
  \<^verbatim>\<open>RAIDOpCode\<close> is a 64-bit unsigned value; \<^verbatim>\<open>RAIDDiskID\<close> and \<^verbatim>\<open>RAIDBlockID\<close> are taken with
  the widths of the opcode fields they travel in (8 and 32 bits, unsigned).  A block of
  \<^verbatim>\<open>RAID_BLOCK_SIZE\<close> bytes (\<^verbatim>\<open>TAGLINE_BLOCK_SIZE\<close> is used interchangeably by the
  source) is one value of type \<open>block\<close>, and a \<^verbatim>\<open>char *\<close> buffer is a function from block
  index to block, so \<^verbatim>\<open>&buf[i*RAID_BLOCK_SIZE]\<close> is the buffer seen from index \<open>i\<close>.
\<close>

record config =
  RAID_INIT :: int
  RAID_FORMAT :: int
  RAID_READ :: int
  RAID_WRITE :: int
  RAID_STATUS :: int
  RAID_CLOSE :: int
  RAID_DISKS :: nat
  RAID_DISKBLOCKS :: nat
  RAID_TRACK_BLOCKS :: nat
  RAID_DISK_UNINITIALIZED :: int
  RAID_DISK_READY :: int
  RAID_DISK_FAILED :: int
  TAGLINE_CACHE_SIZE :: nat
  MAX_TAGLINE_BLOCK_NUMBER :: nat

type_synonym RAIDOpCode = "64 word"
type_synonym RAIDDiskID = "8 word"
type_synonym RAIDBlockID = "32 word"
type_synonym block = string
type_synonym buffer = "nat \<Rightarrow> block"

section \<open>Request codec (tagline\_driver.c)\<close>

text \<open>\<^verbatim>\<open>struct RAIDresponse\<close>, the type of the global \<^verbatim>\<open>GlobResponse\<close>.\<close>

record RAIDresponse =
  r_status :: "8 word"
  r_type :: "8 word"
  r_blockQuantity :: "8 word"
  r_diskNumber :: "8 word"
  r_id :: "32 word"

text \<open>The global \<^verbatim>\<open>GlobResponse\<close> when the program is loaded: all fields zero.\<close>

definition GlobResponse_init :: RAIDresponse where
  "GlobResponse_init =
     \<lparr>r_status = 0, r_type = 0, r_blockQuantity = 0, r_diskNumber = 0, r_id = 0\<rparr>"

text \<open>\<^verbatim>\<open>create_raid_request\<close>: the four fields are shifted into a 64-bit opcode.\<close>

definition create_raid_request :: "8 word \<Rightarrow> 8 word \<Rightarrow> 8 word \<Rightarrow> 32 word \<Rightarrow> RAIDOpCode" where
  "create_raid_request type blockQuantity diskNumber ident =
     (let op = ucast type;
          op = push_bit 8 op OR ucast blockQuantity;
          op = push_bit 8 op OR ucast diskNumber;
          op = push_bit 8 op;
          op = push_bit 32 op OR ucast ident
      in op)"

text \<open>
  \<^verbatim>\<open>extract_raid_response\<close>: fills \<^verbatim>\<open>GlobResponse\<close> field by field and returns 1 at the
  first field that differs from the request, 0 otherwise.  The global is threaded through:
  an early return leaves the later fields as they were.
\<close>

definition extract_raid_response ::
  "config \<Rightarrow> RAIDresponse \<Rightarrow> RAIDOpCode \<Rightarrow> RAIDOpCode \<Rightarrow> int \<times> RAIDresponse" where
  "extract_raid_response cfg g resp operation =
     (let g = g\<lparr>r_id := 0\<rparr>;
          g = g\<lparr>r_id := ucast (drop_bit 32 (push_bit 32 resp))\<rparr>;
          tempID = (ucast (drop_bit 32 (push_bit 32 operation)) :: 32 word);
          g = g\<lparr>r_status := ucast (drop_bit 63 (push_bit 31 resp))\<rparr>
      in if r_status g = 1 then (1, g)
      else
        let g = g\<lparr>r_diskNumber := ucast (drop_bit 40 (0xFF0000000000 AND resp))\<rparr>;
            temp = (ucast (drop_bit 40 (0xFF0000000000 AND operation)) :: 8 word)
        in if r_diskNumber g \<noteq> temp then (1, g)
        else
          let g = g\<lparr>r_blockQuantity := ucast (drop_bit 56 (push_bit 8 resp))\<rparr>;
              temp = (ucast (drop_bit 56 (push_bit 8 operation)) :: 8 word)
          in if r_blockQuantity g \<noteq> temp then (1, g)
          else
            let g = g\<lparr>r_type := ucast (drop_bit 56 resp)\<rparr>;
                temp = (ucast (drop_bit 56 operation) :: 8 word)
            in if r_type g \<noteq> temp then (1, g)
            else if r_id g \<noteq> tempID \<and> uint (r_type g) \<noteq> RAID_STATUS cfg then (1, g)
            else (0, g))"

section \<open>Block cache (raid\_cache.c)\<close>

text \<open>\<^verbatim>\<open>struct cache\<close>: one slot of \<^verbatim>\<open>cacheArray\<close>.\<close>

record cache =
  c_data :: block
  c_timestamp :: "64 word"
  c_disk :: RAIDDiskID
  c_block :: RAIDBlockID

text \<open>
  The global variables of raid\_cache.c.  The counter called \<^verbatim>\<open>insert\<close> and \<^verbatim>\<open>get\<close> in
  the source are \<open>insert_n\<close> and \<open>get_n\<close> here.
\<close>

record cache_state =
  glob_max_items :: nat
  objectCount :: nat
  hit :: int
  miss :: int
  insert_n :: int
  get_n :: int
  timea :: "64 word"
  oldestTime :: "64 word"
  cacheArray :: "cache list"

text \<open>The values the globals have when the program is loaded.\<close>

definition cache_globals :: cache_state where
  "cache_globals =
     \<lparr>glob_max_items = 0, objectCount = 0, hit = 0, miss = 0, insert_n = 0, get_n = 0,
      timea = 0, oldestTime = 0, cacheArray = []\<rparr>"

text \<open>
  \<^verbatim>\<open>init_raid_cache\<close>.  \<^verbatim>\<open>malloc\<close> is taken to succeed; what it returns is indeterminate,
  so the initial payload and timestamp of slot \<open>i\<close> are the parameter \<open>fresh i\<close>.  Only the
  key of every slot is set, to \<^verbatim>\<open>-1\<close> converted to the key types.
\<close>

definition init_raid_cache :: "nat \<Rightarrow> (nat \<Rightarrow> cache) \<Rightarrow> cache_state \<Rightarrow> int \<times> cache_state" where
  "init_raid_cache max_items fresh st =
     (0, st\<lparr>glob_max_items := max_items,
            cacheArray := map (\<lambda>i. (fresh i)\<lparr>c_disk := - 1, c_block := - 1\<rparr>) [0..<max_items]\<rparr>)"

text \<open>
  The search loops \<^verbatim>\<open>for (i=0; i<n; i++) if (cacheArray[i].disk == dsk && cacheArray[i].block == blk) {...; break;}\<close>:
  the first index below \<open>n\<close> holding the key, if any.
\<close>

definition find_slot :: "cache list \<Rightarrow> nat \<Rightarrow> RAIDDiskID \<Rightarrow> RAIDBlockID \<Rightarrow> nat option" where
  "find_slot arr n dsk blk =
     List.find (\<lambda>i. c_disk (arr ! i) = dsk \<and> c_block (arr ! i) = blk) [0..<n]"

text \<open>
  The loop that looks for the oldest slot: it starts from slot 0 and moves to slot \<open>i\<close>
  only when that slot's timestamp is strictly smaller.
\<close>

fun oldest_loop :: "cache list \<Rightarrow> nat list \<Rightarrow> nat \<times> 64 word \<Rightarrow> nat \<times> 64 word" where
  "oldest_loop arr [] acc = acc"
| "oldest_loop arr (i # is) (oldestPosition, oldest) =
     oldest_loop arr is
       (if c_timestamp (arr ! i) < oldest then (i, c_timestamp (arr ! i))
        else (oldestPosition, oldest))"

text \<open>
  \<^verbatim>\<open>put_raid_cache\<close>.  With \<^verbatim>\<open>glob_max_items = 0\<close> the source reads \<^verbatim>\<open>cacheArray[0]\<close>
  outside the array (undefined behaviour); the model is meant for a positive capacity.
  A miss assigns all four fields of the slot it takes, so the slot's new value is written
  as a whole record.
\<close>

definition put_raid_cache :: "RAIDDiskID \<Rightarrow> RAIDBlockID \<Rightarrow> block \<Rightarrow> cache_state \<Rightarrow> int \<times> cache_state" where
  "put_raid_cache dsk blk buf st0 =
     (let st = st0\<lparr>timea := timea st0 + 1\<rparr>;
          arr = cacheArray st
      in if objectCount st < glob_max_items st then
           (case find_slot arr (objectCount st) dsk blk of
              Some i \<Rightarrow>
                (0, st\<lparr>hit := hit st + 1,
                       cacheArray := arr[i := (arr ! i)\<lparr>c_data := buf, c_timestamp := timea st\<rparr>],
                       insert_n := insert_n st + 1\<rparr>)
            | None \<Rightarrow>
                (0, st\<lparr>cacheArray := arr[objectCount st :=
                                \<lparr>c_data = buf, c_timestamp = timea st, c_disk = dsk, c_block = blk\<rparr>],
                       objectCount := objectCount st + 1,
                       insert_n := insert_n st + 1\<rparr>))
         else
           (case find_slot arr (glob_max_items st) dsk blk of
              Some i \<Rightarrow>
                (0, st\<lparr>hit := hit st + 1,
                       cacheArray := arr[i := (arr ! i)\<lparr>c_data := buf, c_timestamp := timea st\<rparr>],
                       insert_n := insert_n st + 1\<rparr>)
            | None \<Rightarrow>
                (let (oldestPosition, oldest) =
                       oldest_loop arr [0..<glob_max_items st] (0, c_timestamp (arr ! 0))
                 in (0, st\<lparr>miss := miss st + 1,
                           oldestTime := oldest,
                           cacheArray := arr[oldestPosition :=
                                \<lparr>c_data = buf, c_timestamp = timea st, c_disk = dsk, c_block = blk\<rparr>],
                           insert_n := insert_n st + 1\<rparr>))))"

text \<open>
  \<^verbatim>\<open>get_raid_cache\<close> returns a pointer into the cache, \<^verbatim>\<open>cacheArray[i].data\<close>, or
  \<^verbatim>\<open>NULL\<close>.  The pointer is modelled by the slot index \<open>i\<close>: the caller copies
  \<open>c_data (cacheArray st ! i)\<close> from the returned state.  The loop runs over all
  \<^verbatim>\<open>glob_max_items\<close> slots, not only over the \<^verbatim>\<open>objectCount\<close> slots that were inserted.
\<close>

definition get_raid_cache :: "RAIDDiskID \<Rightarrow> RAIDBlockID \<Rightarrow> cache_state \<Rightarrow> nat option \<times> cache_state" where
  "get_raid_cache dsk blk st0 =
     (let st = st0\<lparr>timea := timea st0 + 1, get_n := get_n st0 + 1\<rparr>;
          arr = cacheArray st
      in case find_slot arr (glob_max_items st) dsk blk of
           Some i \<Rightarrow>
             (Some i, st\<lparr>hit := hit st + 1,
                         cacheArray := arr[i := (arr ! i)\<lparr>c_timestamp := timea st\<rparr>]\<rparr>)
         | None \<Rightarrow> (None, st\<lparr>miss := miss st + 1\<rparr>))"

text \<open>A history of cache calls, applied to a cache state from left to right.\<close>

datatype cache_op = Put RAIDDiskID RAIDBlockID block | Get RAIDDiskID RAIDBlockID

fun cache_step :: "cache_op \<Rightarrow> cache_state \<Rightarrow> cache_state" where
  "cache_step (Put dsk blk buf) st = snd (put_raid_cache dsk blk buf st)"
| "cache_step (Get dsk blk) st = snd (get_raid_cache dsk blk st)"

fun cache_run :: "cache_op list \<Rightarrow> cache_state \<Rightarrow> cache_state" where
  "cache_run [] st = st"
| "cache_run (x # xs) st = cache_run xs (cache_step x st)"

subsection \<open>Predicates on cache states\<close>

definition key_of :: "cache \<Rightarrow> RAIDDiskID \<times> RAIDBlockID" where
  "key_of c = (c_disk c, c_block c)"

text \<open>The key \<^verbatim>\<open>init_raid_cache\<close> writes into unused slots: \<^verbatim>\<open>(-1, -1)\<close>.\<close>

definition sentinel :: "RAIDDiskID \<times> RAIDBlockID" where
  "sentinel = (- 1, - 1)"

text \<open>
  A cache state is well formed with respect to the initial slot contents \<open>fresh\<close> when the
  array has \<^verbatim>\<open>glob_max_items\<close> slots, at most that many are counted as inserted, every
  slot from \<^verbatim>\<open>objectCount\<close> on still has the key and payload of initialisation, and
  the inserted slots have pairwise different keys.
\<close>

definition cache_wf :: "(nat \<Rightarrow> cache) \<Rightarrow> cache_state \<Rightarrow> bool" where
  "cache_wf fresh st \<longleftrightarrow>
     length (cacheArray st) = glob_max_items st \<and>
     objectCount st \<le> glob_max_items st \<and>
     (\<forall>i < glob_max_items st. objectCount st \<le> i \<longrightarrow>
        key_of (cacheArray st ! i) = sentinel \<and> c_data (cacheArray st ! i) = c_data (fresh i)) \<and>
     (\<forall>i < objectCount st. \<forall>j < objectCount st.
        i \<noteq> j \<longrightarrow> key_of (cacheArray st ! i) \<noteq> key_of (cacheArray st ! j))"

text \<open>If the key \<open>k\<close> is found by a lookup, the payload found is \<open>v\<close>.\<close>

definition cached :: "cache_state \<Rightarrow> RAIDDiskID \<times> RAIDBlockID \<Rightarrow> block \<Rightarrow> bool" where
  "cached c k v \<longleftrightarrow>
     (case find_slot (cacheArray c) (glob_max_items c) (fst k) (snd k) of
        None \<Rightarrow> True
      | Some i \<Rightarrow> c_data (cacheArray c ! i) = v)"

text \<open>No inserted slot carries the sentinel key; no put of a history used it.\<close>

definition real_keys :: "cache_state \<Rightarrow> bool" where
  "real_keys st \<longleftrightarrow> (\<forall>i < objectCount st. key_of (cacheArray st ! i) \<noteq> sentinel)"

fun real_puts :: "cache_op list \<Rightarrow> bool" where
  "real_puts [] = True"
| "real_puts (Put dsk blk buf # xs) = ((dsk, blk) \<noteq> sentinel \<and> real_puts xs)"
| "real_puts (Get dsk blk # xs) = real_puts xs"

text \<open>Slot contents for concrete runs: what \<^verbatim>\<open>malloc\<close> returned is taken to be all zero.\<close>

definition fresh0 :: "nat \<Rightarrow> cache" where
  "fresh0 i = \<lparr>c_data = [], c_timestamp = 0, c_disk = 0, c_block = 0\<rparr>"

section \<open>Transport (raid\_client.c)\<close>

text \<open>
  The disk array at the other end of the socket is outside the sources.  It is a
  parameter of the model: a state of type \<open>'srv\<close> and a function \<open>serve\<close> that answers one
  request, given the opcode and the payload sent with it, by a response opcode, a payload
  and a new state.  \<open>connect_ok\<close> says whether \<^verbatim>\<open>inet_aton\<close>, \<^verbatim>\<open>socket\<close> and \<^verbatim>\<open>connect\<close>
  succeed.  The byte-order conversions \<^verbatim>\<open>htonll64\<close> and \<^verbatim>\<open>ntohll64\<close> are inverse to
  each other and not modelled: \<open>serve\<close> sees and returns opcodes in host order.
\<close>

record 'srv network =
  connect_ok :: "'srv \<Rightarrow> bool"
  serve :: "'srv \<Rightarrow> RAIDOpCode \<Rightarrow> buffer \<Rightarrow> RAIDOpCode \<times> buffer \<times> 'srv"

text \<open>
  \<^verbatim>\<open>client_raid_bus_request(op, buf)\<close>, with \<open>buf\<close> the buffer \<open>off\<close> blocks into the caller's
  buffer.  For a READ or a WRITE the client sends \<open>blocks\<close> blocks from there and reads
  as many back into the same place, whatever the direction of the request.
\<close>

definition client_raid_bus_request ::
  "config \<Rightarrow> 'srv network \<Rightarrow> RAIDOpCode \<Rightarrow> nat \<Rightarrow> buffer \<Rightarrow> 'srv \<Rightarrow> RAIDOpCode \<times> buffer \<times> 'srv" where
  "client_raid_bus_request cfg net op off buf srv =
     (let type = (ucast (drop_bit 56 op) :: 8 word);
          blocks = unat (drop_bit 56 (push_bit 8 op));
          rw = (uint type = RAID_READ cfg \<or> uint type = RAID_WRITE cfg)
      in if uint type = RAID_INIT cfg \<and> \<not> connect_ok net srv then (- 1, buf, srv)
         else
           let sent = (\<lambda>i. if rw \<and> i < blocks then buf (off + i) else []);
               (response, received, srv') = serve net srv op sent
           in (response,
               (\<lambda>j. if rw \<and> off \<le> j \<and> j < off + blocks then received (j - off) else buf j),
               srv'))"

section \<open>Driver state (tagline\_driver.c)\<close>

text \<open>\<^verbatim>\<open>struct disks\<close>, the element type of the global \<^verbatim>\<open>array\<close>.\<close>

record disks =
  status :: int
  blocks :: int

text \<open>\<^verbatim>\<open>struct tagline\<close>, the element type of the table \<^verbatim>\<open>Globtag\<close>.\<close>

record tagline =
  disk :: int
  diskPosition :: int
  backupDisk :: int
  backupDiskPosition :: int

text \<open>
  The globals of the driver, together with the globals of the cache, the state of the
  remote array and the values the coming calls of \<^verbatim>\<open>rand()\<close> return.  The tables are
  total functions; the source allocates \<^verbatim>\<open>maxlines\<close> rows of
  \<^verbatim>\<open>MAX_TAGLINE_BLOCK_NUMBER\<close> entries and never checks an index, so an access past the
  allocation (undefined behaviour in C) reads or writes an entry of the function that
  initialisation did not set.
\<close>

record 'srv driver =
  maxtaglines :: nat
  tagcounter :: "nat \<Rightarrow> int"
  array :: "int \<Rightarrow> disks"
  Globtag :: "nat \<Rightarrow> nat \<Rightarrow> tagline"
  GlobResponse :: RAIDresponse
  cache_vars :: cache_state
  remote :: 'srv
  rand_values :: "nat list"

text \<open>The entry \<^verbatim>\<open>tagline_driver_init\<close> writes: every field \<^verbatim>\<open>-1\<close>.\<close>

definition unassigned :: tagline where
  "unassigned = \<lparr>disk = - 1, diskPosition = - 1, backupDisk = - 1, backupDiskPosition = - 1\<rparr>"

text \<open>Assignments to one field of \<^verbatim>\<open>Globtag[tag][j]\<close> and of \<^verbatim>\<open>array[d]\<close>.\<close>

definition set_tag :: "nat \<Rightarrow> nat \<Rightarrow> (tagline \<Rightarrow> tagline) \<Rightarrow> 'srv driver \<Rightarrow> 'srv driver" where
  "set_tag tag j f s = s\<lparr>Globtag := (Globtag s)(tag := (Globtag s tag)(j := f (Globtag s tag j)))\<rparr>"

definition set_disk :: "int \<Rightarrow> (disks \<Rightarrow> disks) \<Rightarrow> 'srv driver \<Rightarrow> 'srv driver" where
  "set_disk d f s = s\<lparr>array := (array s)(d := f (array s d))\<rparr>"

text \<open>
  The three steps every request goes through, on the driver state:
  \<^verbatim>\<open>client_raid_bus_request\<close> against the remote array, \<^verbatim>\<open>extract_raid_response\<close> against
  \<^verbatim>\<open>GlobResponse\<close>, \<^verbatim>\<open>put_raid_cache\<close> against the cache.  The \<^verbatim>\<open>int\<close> arguments of a
  put and of \<^verbatim>\<open>create_raid_request\<close> are converted to the unsigned parameter types.
\<close>

definition bus ::
  "config \<Rightarrow> 'srv network \<Rightarrow> RAIDOpCode \<Rightarrow> nat \<Rightarrow> buffer \<Rightarrow> 'srv driver
     \<Rightarrow> RAIDOpCode \<times> buffer \<times> 'srv driver" where
  "bus cfg net op off buf s =
     (let (response, buf', srv') = client_raid_bus_request cfg net op off buf (remote s)
      in (response, buf', s\<lparr>remote := srv'\<rparr>))"

definition check_response ::
  "config \<Rightarrow> RAIDOpCode \<Rightarrow> RAIDOpCode \<Rightarrow> 'srv driver \<Rightarrow> int \<times> 'srv driver" where
  "check_response cfg response operation s =
     (let (rc, g) = extract_raid_response cfg (GlobResponse s) response operation
      in (rc, s\<lparr>GlobResponse := g\<rparr>))"

definition cache_put :: "int \<Rightarrow> int \<Rightarrow> block \<Rightarrow> 'srv driver \<Rightarrow> 'srv driver" where
  "cache_put d pos b s =
     s\<lparr>cache_vars := snd (put_raid_cache (word_of_int d) (word_of_int pos) b (cache_vars s))\<rparr>"

definition request :: "int \<Rightarrow> int \<Rightarrow> int \<Rightarrow> int \<Rightarrow> RAIDOpCode" where
  "request type blockQuantity diskNumber ident =
     create_raid_request (word_of_int type) (word_of_int blockQuantity)
       (word_of_int diskNumber) (word_of_int ident)"

section \<open>Reading (tagline\_read)\<close>

text \<open>
  The loop over the requested blocks.  Its state is the last request issued and its
  response (both 0 when the loop starts), the caller's buffer and the driver state.  A
  cache hit copies the cached block; a miss issues a one-block READ into the buffer and
  puts the block into the cache.  No response is checked inside the loop.
\<close>

fun read_loop ::
  "config \<Rightarrow> 'srv network \<Rightarrow> nat \<Rightarrow> nat \<Rightarrow> nat list
     \<Rightarrow> RAIDOpCode \<times> RAIDOpCode \<times> buffer \<times> 'srv driver
     \<Rightarrow> RAIDOpCode \<times> RAIDOpCode \<times> buffer \<times> 'srv driver" where
  "read_loop cfg net tag bnum [] acc = acc"
| "read_loop cfg net tag bnum (i # is) (operation, response, buf, s) =
     (let e = Globtag s tag (bnum + i);
          (tempbuf, c) = get_raid_cache (word_of_int (disk e)) (word_of_int (diskPosition e))
                           (cache_vars s);
          s = s\<lparr>cache_vars := c\<rparr>
      in case tempbuf of
           Some k \<Rightarrow>
             read_loop cfg net tag bnum is
               (operation, response, buf(i := c_data (cacheArray c ! k)), s)
         | None \<Rightarrow>
             (let operation = request (RAID_READ cfg) 1 (disk e) (diskPosition e);
                  (response, buf, s) = bus cfg net operation i buf s;
                  s = cache_put (disk e) (diskPosition e) (buf i) s
              in read_loop cfg net tag bnum is (operation, response, buf, s)))"

text \<open>\<^verbatim>\<open>tagline_read\<close>: the loop, then one check of the last response against the last request.\<close>

definition tagline_read ::
  "config \<Rightarrow> 'srv network \<Rightarrow> nat \<Rightarrow> nat \<Rightarrow> nat \<Rightarrow> buffer \<Rightarrow> 'srv driver
     \<Rightarrow> int \<times> buffer \<times> 'srv driver" where
  "tagline_read cfg net tag bnum blks buf s =
     (let (operation, response, buf, s) = read_loop cfg net tag bnum [0..<blks] (0, 0, buf, s);
          (rc, s) = check_response cfg response operation s
      in if rc \<noteq> 0 then (1, buf, s) else (0, buf, s))"

section \<open>Choosing disks (chooseDisk)\<close>

text \<open>
  \<^verbatim>\<open>rand() % RAID_DISKS\<close> takes the next of the supplied random values.  The loops of
  \<^verbatim>\<open>chooseDisk\<close> draw until their exit condition holds; with the supplied values used up
  before that, the result is \<open>None\<close>: the source would still be looping.
\<close>

fun change_loop :: "config \<Rightarrow> int \<Rightarrow> int \<Rightarrow> nat list \<Rightarrow> (int \<times> nat list) option" where
  "change_loop cfg old cur [] = (if cur = old then None else Some (cur, []))"
| "change_loop cfg old cur (r # rs) =
     (if cur = old then change_loop cfg old (int (r mod RAID_DISKS cfg)) rs
      else Some (cur, r # rs))"

fun both_loop :: "config \<Rightarrow> int \<Rightarrow> int \<Rightarrow> nat list \<Rightarrow> (int \<times> int \<times> nat list) option" where
  "both_loop cfg d b (r1 # r2 # rs) =
     (if d = b then both_loop cfg (int (r1 mod RAID_DISKS cfg)) (int (r2 mod RAID_DISKS cfg)) rs
      else Some (d, b, r1 # r2 # rs))"
| "both_loop cfg d b rs = (if d = b then None else Some (d, b, rs))"

text \<open>
  \<^verbatim>\<open>chooseDisk(disk, backupDisk, blks)\<close>.  A \<^verbatim>\<open>NULL\<close> pointer is \<open>None\<close>.  With only
  \<open>disk\<close> given it is redrawn until it differs from its old value, likewise with only
  \<open>backupDisk\<close>; with both given, both are redrawn while they are equal.  With neither
  the source dereferences \<^verbatim>\<open>NULL\<close>; no caller does that.  \<open>blks\<close> is not used.
\<close>

definition chooseDisk ::
  "config \<Rightarrow> int option \<Rightarrow> int option \<Rightarrow> int \<Rightarrow> nat list
     \<Rightarrow> (int option \<times> int option \<times> nat list) option" where
  "chooseDisk cfg dptr bptr blks rs =
     (case (dptr, bptr) of
        (Some d, None) \<Rightarrow>
          (case change_loop cfg d d rs of
             None \<Rightarrow> None
           | Some (d', rs') \<Rightarrow> Some (Some d', None, rs'))
      | (None, Some b) \<Rightarrow>
          (case change_loop cfg b b rs of
             None \<Rightarrow> None
           | Some (b', rs') \<Rightarrow> Some (None, Some b', rs'))
      | (Some d, Some b) \<Rightarrow>
          (case both_loop cfg d b rs of
             None \<Rightarrow> None
           | Some (d', b', rs') \<Rightarrow> Some (Some d', Some b', rs'))
      | (None, None) \<Rightarrow> None)"

lemma change_loop_shorter:
  "change_loop cfg old cur rs = Some (d, rs') \<Longrightarrow> cur = old \<Longrightarrow> length rs' < length rs"
proof (induction rs arbitrary: cur)
  case Nil
  then show ?case by simp
next
  case (Cons r rs)
  show ?case
  proof (cases "int (r mod RAID_DISKS cfg) = old")
    case True
    with Cons show ?thesis by fastforce
  next
    case False
    with Cons.prems show ?thesis
      by (cases rs) (auto split: if_splits)
  qed
qed

text \<open>
  The loops \<^verbatim>\<open>while (Globtag[tag][localBnum].backupDisk == disk || Globtag[tag][bnum].backupDisk == disk) chooseDisk(&disk, NULL, 1);\<close>
  and its mirror image with \<^verbatim>\<open>chooseDisk(NULL, &backupDisk, 1)\<close>.  The two table entries
  do not change while the loop runs; \<open>x\<close> and \<open>y\<close> are the two values the disk must avoid.
\<close>

function avoid_primary :: "config \<Rightarrow> int \<Rightarrow> int \<Rightarrow> int \<Rightarrow> nat list \<Rightarrow> (int \<times> nat list) option" where
  "avoid_primary cfg x y dsk rs =
     (if x = dsk \<or> y = dsk then
        (case chooseDisk cfg (Some dsk) None 1 rs of
           Some (Some dsk', _, rs') \<Rightarrow> avoid_primary cfg x y dsk' rs'
         | _ \<Rightarrow> None)
      else Some (dsk, rs))"
  by pat_completeness auto
termination
  by (relation "measure (\<lambda>(cfg, x, y, dsk, rs). length rs)")
    (auto simp: chooseDisk_def split: option.splits dest: change_loop_shorter)

function avoid_mirror :: "config \<Rightarrow> int \<Rightarrow> int \<Rightarrow> int \<Rightarrow> nat list \<Rightarrow> (int \<times> nat list) option" where
  "avoid_mirror cfg x y bdsk rs =
     (if x = bdsk \<or> y = bdsk then
        (case chooseDisk cfg None (Some bdsk) 1 rs of
           Some (_, Some bdsk', rs') \<Rightarrow> avoid_mirror cfg x y bdsk' rs'
         | _ \<Rightarrow> None)
      else Some (bdsk, rs))"
  by pat_completeness auto
termination
  by (relation "measure (\<lambda>(cfg, x, y, bdsk, rs). length rs)")
    (auto simp: chooseDisk_def split: option.splits dest: change_loop_shorter)

section \<open>Writing (tagline\_write)\<close>

text \<open>
  The loop that counts the blocks available before the range stops being contiguous, on
  the primary side (\<open>blocksAvailable\<close>) and on the backup side (\<open>blocksAvailable2\<close>).  Both
  start at 1 and \<open>localBnum\<close> starts at \<open>bnum\<close> and is advanced once per iteration, so in
  iteration \<open>i\<close> it equals \<open>bnum + i\<close>.  The four conjuncts of each condition are those of
  the source, in its order.
\<close>

fun available_loop ::
  "(nat \<Rightarrow> tagline) \<Rightarrow> nat \<Rightarrow> nat list \<Rightarrow> nat \<times> nat \<times> nat \<Rightarrow> nat \<times> nat \<times> nat" where
  "available_loop row bnum [] acc = acc"
| "available_loop row bnum (i # is) (blocksAvailable, blocksAvailable2, localBnum) =
     available_loop row bnum is
       (if disk (row (localBnum + 1)) = disk (row bnum)
           \<and> diskPosition (row (localBnum + 1)) = diskPosition (row localBnum) + 1
           \<and> disk (row (localBnum + 1)) \<noteq> - 1
           \<and> diskPosition (row (bnum + i)) = diskPosition (row localBnum) + int i
        then blocksAvailable + 1 else blocksAvailable,
        if backupDisk (row (localBnum + 1)) = backupDisk (row bnum)
           \<and> backupDiskPosition (row (localBnum + 1)) = backupDiskPosition (row localBnum) + 1
           \<and> backupDisk (row (localBnum + 1)) \<noteq> - 1
           \<and> backupDiskPosition (row (bnum + i)) = backupDiskPosition (row localBnum) + int i
        then blocksAvailable2 + 1 else blocksAvailable2,
        localBnum + 1)"

text \<open>
  The cache loops
  \<^verbatim>\<open>for (i=0; i<n; i++) put_raid_cache(Globtag[tag][bnum+i].disk, Globtag[tag][bnum+i].diskPosition, &buf[i*RAID_BLOCK_SIZE]);\<close>
  and the same on the backup fields, and the loop of the append path that caches \<open>n\<close>
  consecutive positions of one disk.
\<close>

fun put_primary :: "nat \<Rightarrow> nat \<Rightarrow> buffer \<Rightarrow> nat list \<Rightarrow> 'srv driver \<Rightarrow> 'srv driver" where
  "put_primary tag bnum buf [] s = s"
| "put_primary tag bnum buf (i # is) s =
     put_primary tag bnum buf is
       (cache_put (disk (Globtag s tag (bnum + i))) (diskPosition (Globtag s tag (bnum + i))) (buf i) s)"

fun put_mirror :: "nat \<Rightarrow> nat \<Rightarrow> buffer \<Rightarrow> nat list \<Rightarrow> 'srv driver \<Rightarrow> 'srv driver" where
  "put_mirror tag bnum buf [] s = s"
| "put_mirror tag bnum buf (i # is) s =
     put_mirror tag bnum buf is
       (cache_put (backupDisk (Globtag s tag (bnum + i)))
          (backupDiskPosition (Globtag s tag (bnum + i))) (buf i) s)"

fun put_fresh :: "int \<Rightarrow> buffer \<Rightarrow> nat list \<Rightarrow> 'srv driver \<Rightarrow> 'srv driver" where
  "put_fresh d buf [] s = s"
| "put_fresh d buf (i # is) s =
     put_fresh d buf is (cache_put d (blocks (array s d) + 1 + int i) (buf i) s)"

text \<open>
  A request issued and checked at once: \<^verbatim>\<open>response = client_raid_bus_request(operation, buf + off); if (extract_raid_response(response, operation)) return (1);\<close>
  The result code is 1 when the function returns there and 0 when it goes on.
\<close>

definition issue ::
  "config \<Rightarrow> 'srv network \<Rightarrow> RAIDOpCode \<Rightarrow> nat \<Rightarrow> buffer \<Rightarrow> 'srv driver
     \<Rightarrow> int \<times> buffer \<times> 'srv driver" where
  "issue cfg net operation off buf s =
     (let (response, buf, s) = bus cfg net operation off buf s;
          (rc, s) = check_response cfg response operation s
      in (if rc \<noteq> 0 then 1 else 0, buf, s))"

text \<open>
  The loop that writes the rest of a rewritten range one block at a time on the primary
  side.  Its state is the local \<open>disk\<close> (here \<open>dsk\<close>), \<open>localBnum\<close>, the buffer and the
  driver state; the first component of the result is 1 when the function returns from
  inside the loop.
\<close>

fun primary_rest ::
  "config \<Rightarrow> 'srv network \<Rightarrow> nat \<Rightarrow> nat \<Rightarrow> nat \<Rightarrow> nat list
     \<Rightarrow> int \<times> nat \<times> buffer \<times> 'srv driver
     \<Rightarrow> (int \<times> int \<times> nat \<times> buffer \<times> 'srv driver) option" where
  "primary_rest cfg net tag bnum blocksAvailable [] (dsk, localBnum, buf, s) =
     Some (0, dsk, localBnum, buf, s)"
| "primary_rest cfg net tag bnum blocksAvailable (i # is) (dsk, localBnum, buf, s) =
     (case avoid_primary cfg (backupDisk (Globtag s tag localBnum)) (backupDisk (Globtag s tag bnum))
             dsk (rand_values s) of
        None \<Rightarrow> None
      | Some (dsk, rs) \<Rightarrow>
          (let s = s\<lparr>rand_values := rs\<rparr>
           in if diskPosition (Globtag s tag localBnum) = - 1 then
                (let s = cache_put dsk (blocks (array s dsk) + 1) (buf (blocksAvailable + i)) s;
                     operation = request (RAID_WRITE cfg) 1 dsk (blocks (array s dsk) + 1);
                     (rc, buf, s) = issue cfg net operation (blocksAvailable + i) buf s
                 in if rc \<noteq> 0 then Some (1, dsk, localBnum, buf, s)
                    else
                      (let s = set_tag tag localBnum (\<lambda>e. e\<lparr>disk := dsk\<rparr>) s;
                           s = set_disk dsk (\<lambda>a. a\<lparr>blocks := blocks a + 1\<rparr>) s;
                           s = set_tag tag localBnum (\<lambda>e. e\<lparr>diskPosition := blocks (array s dsk)\<rparr>) s;
                           s = s\<lparr>tagcounter := (tagcounter s)(tag := tagcounter s tag + 1)\<rparr>
                       in primary_rest cfg net tag bnum blocksAvailable is (dsk, localBnum + 1, buf, s)))
              else
                (let e = Globtag s tag localBnum;
                     s = cache_put (disk e) (diskPosition e) (buf (blocksAvailable + i)) s;
                     operation = request (RAID_WRITE cfg) 1 (disk e) (diskPosition e);
                     (rc, buf, s) = issue cfg net operation (blocksAvailable + i) buf s
                 in if rc \<noteq> 0 then Some (1, dsk, localBnum, buf, s)
                    else primary_rest cfg net tag bnum blocksAvailable is (dsk, localBnum + 1, buf, s))))"

text \<open>
  The same loop on the backup side.  As in the source, the block put into the cache is
  taken from offset \<open>blocksAvailable + i\<close> of the buffer while the block sent to the array
  is taken from offset \<open>blocksAvailable2 + i\<close>, and \<^verbatim>\<open>tagcounter\<close> is not advanced.
\<close>

fun mirror_rest ::
  "config \<Rightarrow> 'srv network \<Rightarrow> nat \<Rightarrow> nat \<Rightarrow> nat \<Rightarrow> nat \<Rightarrow> nat list
     \<Rightarrow> int \<times> nat \<times> buffer \<times> 'srv driver
     \<Rightarrow> (int \<times> int \<times> nat \<times> buffer \<times> 'srv driver) option" where
  "mirror_rest cfg net tag bnum blocksAvailable blocksAvailable2 [] (bdsk, localBnum, buf, s) =
     Some (0, bdsk, localBnum, buf, s)"
| "mirror_rest cfg net tag bnum blocksAvailable blocksAvailable2 (i # is) (bdsk, localBnum, buf, s) =
     (case avoid_mirror cfg (disk (Globtag s tag localBnum)) (disk (Globtag s tag bnum))
             bdsk (rand_values s) of
        None \<Rightarrow> None
      | Some (bdsk, rs) \<Rightarrow>
          (let s = s\<lparr>rand_values := rs\<rparr>
           in if backupDiskPosition (Globtag s tag localBnum) = - 1 then
                (let s = cache_put bdsk (blocks (array s bdsk) + 1) (buf (blocksAvailable + i)) s;
                     operation2 = request (RAID_WRITE cfg) 1 bdsk (blocks (array s bdsk) + 1);
                     (rc, buf, s) = issue cfg net operation2 (blocksAvailable2 + i) buf s
                 in if rc \<noteq> 0 then Some (1, bdsk, localBnum, buf, s)
                    else
                      (let s = set_tag tag localBnum (\<lambda>e. e\<lparr>backupDisk := bdsk\<rparr>) s;
                           s = set_disk bdsk (\<lambda>a. a\<lparr>blocks := blocks a + 1\<rparr>) s;
                           s = set_tag tag localBnum
                                 (\<lambda>e. e\<lparr>backupDiskPosition := blocks (array s bdsk)\<rparr>) s
                       in mirror_rest cfg net tag bnum blocksAvailable blocksAvailable2 is
                            (bdsk, localBnum + 1, buf, s)))
              else
                (let e = Globtag s tag localBnum;
                     s = cache_put (backupDisk e) (backupDiskPosition e) (buf (blocksAvailable + i)) s;
                     operation2 = request (RAID_WRITE cfg) 1 (backupDisk e) (backupDiskPosition e);
                     (rc, buf, s) = issue cfg net operation2 (blocksAvailable2 + i) buf s
                 in if rc \<noteq> 0 then Some (1, bdsk, localBnum, buf, s)
                    else mirror_rest cfg net tag bnum blocksAvailable blocksAvailable2 is
                           (bdsk, localBnum + 1, buf, s))))"

text \<open>
  The bookkeeping loop of the append path: entry \<open>localBnum\<close> gets the two disks, both
  cursors advance, and the entry gets the two new cursor values as positions.
\<close>

fun record_append :: "nat \<Rightarrow> int \<Rightarrow> int \<Rightarrow> nat list \<Rightarrow> nat \<times> 'srv driver \<Rightarrow> nat \<times> 'srv driver" where
  "record_append tag dsk bdsk [] acc = acc"
| "record_append tag dsk bdsk (i # is) (localBnum, s) =
     (let s = set_tag tag localBnum (\<lambda>e. e\<lparr>disk := dsk\<rparr>) s;
          s = set_tag tag localBnum (\<lambda>e. e\<lparr>backupDisk := bdsk\<rparr>) s;
          s = set_disk dsk (\<lambda>a. a\<lparr>blocks := blocks a + 1\<rparr>) s;
          s = set_disk bdsk (\<lambda>a. a\<lparr>blocks := blocks a + 1\<rparr>) s;
          s = set_tag tag localBnum (\<lambda>e. e\<lparr>diskPosition := blocks (array s dsk)\<rparr>) s;
          s = set_tag tag localBnum (\<lambda>e. e\<lparr>backupDiskPosition := blocks (array s bdsk)\<rparr>) s
      in record_append tag dsk bdsk is (localBnum + 1, s))"

text \<open>
  The four conditional blocks of the rewrite path and the append path.  Each takes and
  returns the locals that are live across them (\<open>disk\<close>, \<open>backupDisk\<close>, the buffer) with
  the driver state, and a result code: 1 when \<^verbatim>\<open>tagline_write\<close> returns 1 from inside the
  block, 0 when control reaches its end.
\<close>

type_synonym 'srv write_state = "int \<times> int \<times> buffer \<times> 'srv driver"

definition rewrite_primary_whole ::
  "config \<Rightarrow> 'srv network \<Rightarrow> nat \<Rightarrow> nat \<Rightarrow> nat \<Rightarrow> nat \<Rightarrow> 'srv write_state
     \<Rightarrow> (int \<times> 'srv write_state) option" where
  "rewrite_primary_whole cfg net tag bnum blks blocksAvailable = (\<lambda>(dsk, bdsk, buf, s).
     if blocksAvailable \<ge> blks then
       (let s = put_primary tag bnum buf [0..<blks] s;
            operation = request (RAID_WRITE cfg) (int blks) (disk (Globtag s tag bnum))
                          (diskPosition (Globtag s tag bnum));
            (rc, buf, s) = issue cfg net operation 0 buf s
        in Some (rc, dsk, bdsk, buf, s))
     else Some (0, dsk, bdsk, buf, s))"

definition rewrite_mirror_whole ::
  "config \<Rightarrow> 'srv network \<Rightarrow> nat \<Rightarrow> nat \<Rightarrow> nat \<Rightarrow> nat \<Rightarrow> 'srv write_state
     \<Rightarrow> (int \<times> 'srv write_state) option" where
  "rewrite_mirror_whole cfg net tag bnum blks blocksAvailable2 = (\<lambda>(dsk, bdsk, buf, s).
     if blocksAvailable2 \<ge> blks then
       (let s = put_mirror tag bnum buf [0..<blks] s;
            operation2 = request (RAID_WRITE cfg) (int blks) (backupDisk (Globtag s tag bnum))
                           (backupDiskPosition (Globtag s tag bnum));
            (rc, buf, s) = issue cfg net operation2 0 buf s
        in Some (rc, dsk, bdsk, buf, s))
     else Some (0, dsk, bdsk, buf, s))"

definition rewrite_primary_split ::
  "config \<Rightarrow> 'srv network \<Rightarrow> nat \<Rightarrow> nat \<Rightarrow> nat \<Rightarrow> nat \<Rightarrow> 'srv write_state
     \<Rightarrow> (int \<times> 'srv write_state) option" where
  "rewrite_primary_split cfg net tag bnum blks blocksAvailable = (\<lambda>(dsk, bdsk, buf, s).
     if blocksAvailable < blks then
       (let s = put_primary tag bnum buf [0..<blocksAvailable] s;
            operation = request (RAID_WRITE cfg) (int blocksAvailable) (disk (Globtag s tag bnum))
                          (diskPosition (Globtag s tag bnum));
            (rc, buf, s) = issue cfg net operation 0 buf s
        in if rc \<noteq> 0 then Some (1, dsk, bdsk, buf, s)
           else
             (case primary_rest cfg net tag bnum blocksAvailable [0..<blks - blocksAvailable]
                     (dsk, bnum + blocksAvailable, buf, s) of
                None \<Rightarrow> None
              | Some (rc, dsk, localBnum, buf, s) \<Rightarrow> Some (rc, dsk, bdsk, buf, s)))
     else Some (0, dsk, bdsk, buf, s))"

definition rewrite_mirror_split ::
  "config \<Rightarrow> 'srv network \<Rightarrow> nat \<Rightarrow> nat \<Rightarrow> nat \<Rightarrow> nat \<Rightarrow> nat \<Rightarrow> 'srv write_state
     \<Rightarrow> (int \<times> 'srv write_state) option" where
  "rewrite_mirror_split cfg net tag bnum blks blocksAvailable blocksAvailable2 = (\<lambda>(dsk, bdsk, buf, s).
     if blocksAvailable2 < blks then
       (let s = put_mirror tag bnum buf [0..<blocksAvailable] s;
            operation2 = request (RAID_WRITE cfg) (int blocksAvailable2)
                           (backupDisk (Globtag s tag bnum)) (backupDiskPosition (Globtag s tag bnum));
            (rc, buf, s) = issue cfg net operation2 0 buf s
        in if rc \<noteq> 0 then Some (1, dsk, bdsk, buf, s)
           else
             (case mirror_rest cfg net tag bnum blocksAvailable blocksAvailable2
                     [0..<blks - blocksAvailable2] (bdsk, bnum + blocksAvailable2, buf, s) of
                None \<Rightarrow> None
              | Some (rc, bdsk, localBnum, buf, s) \<Rightarrow> Some (rc, dsk, bdsk, buf, s)))
     else Some (0, dsk, bdsk, buf, s))"

definition append_blocks ::
  "config \<Rightarrow> 'srv network \<Rightarrow> nat \<Rightarrow> nat \<Rightarrow> nat \<Rightarrow> 'srv write_state
     \<Rightarrow> (int \<times> 'srv write_state) option" where
  "append_blocks cfg net tag bnum blks = (\<lambda>(dsk, bdsk, buf, s).
     let s = put_fresh dsk buf [0..<blks] s;
         operation = request (RAID_WRITE cfg) (int blks) dsk (blocks (array s dsk) + 1);
         (rc, buf, s) = issue cfg net operation 0 buf s
     in if rc \<noteq> 0 then Some (1, dsk, bdsk, buf, s)
        else
          (let s = put_fresh bdsk buf [0..<blks] s;
               operation2 = request (RAID_WRITE cfg) (int blks) bdsk (blocks (array s bdsk) + 1);
               (rc, buf, s) = issue cfg net operation2 0 buf s
           in if rc \<noteq> 0 then Some (1, dsk, bdsk, buf, s)
              else
                (let s = s\<lparr>tagcounter := (tagcounter s)(tag := tagcounter s tag + int blks)\<rparr>;
                     (localBnum, s) = record_append tag dsk bdsk [0..<blks] (bnum, s)
                 in Some (0, dsk, bdsk, buf, s))))"

text \<open>Sequencing of blocks: a block that returned 1 ends the function.\<close>

definition and_then ::
  "(int \<times> 'a) option \<Rightarrow> ('a \<Rightarrow> (int \<times> 'a) option) \<Rightarrow> (int \<times> 'a) option" where
  "and_then m f = (case m of None \<Rightarrow> None | Some (rc, x) \<Rightarrow> if rc \<noteq> 0 then Some (rc, x) else f x)"

text \<open>
  \<^verbatim>\<open>tagline_write(tag, bnum, blks, buf)\<close>; \<open>blks\<close> is a \<^verbatim>\<open>uint8_t\<close>, so callers pass a value
  below 256.  The result is \<open>None\<close> when the supplied random values run out inside one of
  the disk-choosing loops, otherwise the return value, the buffer and the new state.
\<close>

definition tagline_write ::
  "config \<Rightarrow> 'srv network \<Rightarrow> nat \<Rightarrow> nat \<Rightarrow> nat \<Rightarrow> buffer \<Rightarrow> 'srv driver
     \<Rightarrow> (int \<times> buffer \<times> 'srv driver) option" where
  "tagline_write cfg net tag bnum blks buf s =
     (let rewritting = (int bnum < tagcounter s tag)
      in case rand_values s of
           r1 # r2 # rs \<Rightarrow>
             (case chooseDisk cfg (Some (int (r1 mod RAID_DISKS cfg)))
                     (Some (int (r2 mod RAID_DISKS cfg))) (int blks) rs of
                Some (Some dsk, Some bdsk, rs) \<Rightarrow>
                  (let s = s\<lparr>rand_values := rs\<rparr>;
                       (blocksAvailable, blocksAvailable2, localBnum) =
                          (if rewritting \<and> blks \<noteq> 1
                           then available_loop (Globtag s tag) bnum [0..<blks] (1, 1, bnum)
                           else (1, 1, bnum));
                       r = (if rewritting then
                              and_then (and_then (and_then
                                (rewrite_primary_whole cfg net tag bnum blks blocksAvailable
                                   (dsk, bdsk, buf, s))
                                (rewrite_mirror_whole cfg net tag bnum blks blocksAvailable2))
                                (rewrite_primary_split cfg net tag bnum blks blocksAvailable))
                                (rewrite_mirror_split cfg net tag bnum blks blocksAvailable
                                   blocksAvailable2)
                            else append_blocks cfg net tag bnum blks (dsk, bdsk, buf, s))
                   in case r of
                        None \<Rightarrow> None
                      | Some (rc, dsk, bdsk, buf, s) \<Rightarrow> Some (rc, buf, s))
              | _ \<Rightarrow> None)
         | _ \<Rightarrow> None)"

section \<open>A sample configuration\<close>

text \<open>
  Concrete values for the header constants, used where a statement is evaluated on a
  concrete input: the six request types numbered in the order the driver uses them, two
  disks, a cache of two blocks.
\<close>

definition sample_config :: config where
  "sample_config =
     \<lparr>RAID_INIT = 0, RAID_FORMAT = 1, RAID_READ = 2, RAID_WRITE = 3, RAID_STATUS = 4,
      RAID_CLOSE = 5, RAID_DISKS = 2, RAID_DISKBLOCKS = 64, RAID_TRACK_BLOCKS = 8,
      RAID_DISK_UNINITIALIZED = 0, RAID_DISK_READY = 1, RAID_DISK_FAILED = 2,
      TAGLINE_CACHE_SIZE = 2, MAX_TAGLINE_BLOCK_NUMBER = 16\<rparr>"

section \<open>Failure recovery (raid\_disk\_recover, raid\_disk\_signal)\<close>

text \<open>
  The body of the inner loop of \<^verbatim>\<open>raid_disk_recover\<close> for one entry \<^verbatim>\<open>Globtag[i][j]\<close>.  The
  locals \<open>operation\<close>, \<open>response\<close> and the one-block buffer \<open>tempbuf\<close> are carried along.
  \<open>dsk\<close> is the \<^verbatim>\<open>uint8_t\<close> parameter; it is compared with the \<^verbatim>\<open>int\<close> fields as an
  \<^verbatim>\<open>int\<close>.  After a cache hit no request is issued, and the check that follows sees the
  request and response that were issued last.
\<close>

definition recover_entry ::
  "config \<Rightarrow> 'srv network \<Rightarrow> 8 word \<Rightarrow> nat \<Rightarrow> nat
     \<Rightarrow> RAIDOpCode \<times> RAIDOpCode \<times> buffer \<times> 'srv driver
     \<Rightarrow> int \<times> RAIDOpCode \<times> RAIDOpCode \<times> buffer \<times> 'srv driver" where
  "recover_entry cfg net dsk i j = (\<lambda>(operation, response, tempbuf, s).
     let (rc, operation, response, tempbuf, s) =
           (if disk (Globtag s i j) = uint dsk then
              (let e = Globtag s i j;
                   (tempbufcache, c) = get_raid_cache (word_of_int (disk e))
                                         (word_of_int (diskPosition e)) (cache_vars s);
                   s = s\<lparr>cache_vars := c\<rparr>;
                   (operation, response, tempbuf, s) =
                      (case tempbufcache of
                         Some k \<Rightarrow> (operation, response, tempbuf(0 := c_data (cacheArray c ! k)), s)
                       | None \<Rightarrow>
                           (let operation = request (RAID_READ cfg) 1 (backupDisk e)
                                              (backupDiskPosition e);
                                (response, tempbuf, s) = bus cfg net operation 0 tempbuf s;
                                s = cache_put (disk e) (diskPosition e) (tempbuf 0) s
                            in (operation, response, tempbuf, s)));
                   (rc, s) = check_response cfg response operation s
               in if rc \<noteq> 0 then (1 :: int, operation, response, tempbuf, s)
                  else
                    (let operation = request (RAID_WRITE cfg) 1 (disk e) (diskPosition e);
                         (response, tempbuf, s) = bus cfg net operation 0 tempbuf s;
                         (rc, s) = check_response cfg response operation s
                     in (if rc \<noteq> 0 then 1 else 0, operation, response, tempbuf, s)))
            else (0, operation, response, tempbuf, s))
     in if rc \<noteq> 0 then (1, operation, response, tempbuf, s)
        else if backupDisk (Globtag s i j) = uint dsk then
          (let e = Globtag s i j;
               operation = request (RAID_READ cfg) 1 (disk e) (diskPosition e);
               (response, tempbuf, s) = bus cfg net operation 0 tempbuf s;
               (rc, s) = check_response cfg response operation s
           in if rc \<noteq> 0 then (1, operation, response, tempbuf, s)
              else
                (let operation = request (RAID_WRITE cfg) 1 (backupDisk e) (backupDiskPosition e);
                     (response, tempbuf, s) = bus cfg net operation 0 tempbuf s;
                     (rc, s) = check_response cfg response operation s
                 in (if rc \<noteq> 0 then 1 else 0, operation, response, tempbuf, s)))
        else (0, operation, response, tempbuf, s))"

text \<open>
  The two nested loops, \<^verbatim>\<open>for (i < maxtaglines) for (j < tagcounter[i])\<close>.  Neither
  \<^verbatim>\<open>maxtaglines\<close> nor \<^verbatim>\<open>tagcounter\<close> changes during recovery.
\<close>

fun recover_row ::
  "config \<Rightarrow> 'srv network \<Rightarrow> 8 word \<Rightarrow> nat \<Rightarrow> nat list
     \<Rightarrow> RAIDOpCode \<times> RAIDOpCode \<times> buffer \<times> 'srv driver
     \<Rightarrow> int \<times> RAIDOpCode \<times> RAIDOpCode \<times> buffer \<times> 'srv driver" where
  "recover_row cfg net dsk i [] (operation, response, tempbuf, s) =
     (0, operation, response, tempbuf, s)"
| "recover_row cfg net dsk i (j # js) acc =
     (case recover_entry cfg net dsk i j acc of
        (rc, acc') \<Rightarrow> if rc \<noteq> 0 then (1, acc') else recover_row cfg net dsk i js acc')"

fun recover_rows ::
  "config \<Rightarrow> 'srv network \<Rightarrow> 8 word \<Rightarrow> nat list
     \<Rightarrow> RAIDOpCode \<times> RAIDOpCode \<times> buffer \<times> 'srv driver
     \<Rightarrow> int \<times> RAIDOpCode \<times> RAIDOpCode \<times> buffer \<times> 'srv driver" where
  "recover_rows cfg net dsk [] (operation, response, tempbuf, s) =
     (0, operation, response, tempbuf, s)"
| "recover_rows cfg net dsk (i # is) (operation, response, tempbuf, s) =
     (case recover_row cfg net dsk i [0..<nat (tagcounter s i)] (operation, response, tempbuf, s) of
        (rc, acc') \<Rightarrow> if rc \<noteq> 0 then (1, acc') else recover_rows cfg net dsk is acc')"

text \<open>
  \<^verbatim>\<open>raid_disk_recover(disk)\<close>: a FORMAT of the disk, the scan, and at the end the status
  \<^verbatim>\<open>RAID_DISK_READY\<close>.  \<^verbatim>\<open>calloc\<close> gives a zeroed block, here the block \<open>zero\<close>.  A
  request without payload passes \<^verbatim>\<open>NULL\<close>, here an empty buffer that the client does not
  touch unless the opcode is a READ or a WRITE.  The function assigns to no field of
  \<^verbatim>\<open>array[disk]\<close> other than \<^verbatim>\<open>status\<close>.
\<close>

definition raid_disk_recover ::
  "config \<Rightarrow> 'srv network \<Rightarrow> block \<Rightarrow> 8 word \<Rightarrow> 'srv driver \<Rightarrow> int \<times> 'srv driver" where
  "raid_disk_recover cfg net zero dsk s =
     (let tempbuf = (\<lambda>k. zero);
          operation = request (RAID_FORMAT cfg) 0 (uint dsk) 0;
          (response, unused, s) = bus cfg net operation 0 (\<lambda>k. []) s;
          (rc, s) = check_response cfg response operation s
      in if rc \<noteq> 0 then (1, s)
         else
           (case recover_rows cfg net dsk [0..<maxtaglines s] (operation, response, tempbuf, s) of
              (rc, operation, response, tempbuf, s) \<Rightarrow>
                if rc \<noteq> 0 then (1, s)
                else (0, set_disk (uint dsk) (\<lambda>a. a\<lparr>status := RAID_DISK_READY cfg\<rparr>) s)))"

text \<open>
  \<^verbatim>\<open>raid_disk_signal\<close>: a STATUS request per disk; a disk whose response carries the
  identifier \<^verbatim>\<open>RAID_DISK_FAILED\<close> is marked failed and recovered.  The value
  \<^verbatim>\<open>raid_disk_recover\<close> returns is not used.  The loop variable is a \<^verbatim>\<open>uint8_t\<close>.
\<close>

fun signal_loop ::
  "config \<Rightarrow> 'srv network \<Rightarrow> block \<Rightarrow> nat list \<Rightarrow> 'srv driver \<Rightarrow> int \<times> 'srv driver" where
  "signal_loop cfg net zero [] s = (0, s)"
| "signal_loop cfg net zero (d # ds) s =
     (let operation = request (RAID_STATUS cfg) 0 (int d) 0;
          (response, unused, s) = bus cfg net operation 0 (\<lambda>k. []) s;
          (rc, s) = check_response cfg response operation s
      in if rc \<noteq> 0 then (1, s)
         else if r_id (GlobResponse s) = word_of_int (RAID_DISK_FAILED cfg) then
           (let s = set_disk (int d) (\<lambda>a. a\<lparr>status := RAID_DISK_FAILED cfg\<rparr>) s;
                (ignored, s) = raid_disk_recover cfg net zero (of_nat d) s
            in signal_loop cfg net zero ds s)
         else signal_loop cfg net zero ds s)"

text \<open>
  With 256 disks or more the \<^verbatim>\<open>uint8_t\<close> loop variable wraps around before it reaches
  \<^verbatim>\<open>RAID_DISKS\<close> and the source loops for ever: the result is \<open>None\<close>.
\<close>

definition raid_disk_signal ::
  "config \<Rightarrow> 'srv network \<Rightarrow> block \<Rightarrow> 'srv driver \<Rightarrow> (int \<times> 'srv driver) option" where
  "raid_disk_signal cfg net zero s =
     (if RAID_DISKS cfg > 255 then None
      else Some (signal_loop cfg net zero [0..<RAID_DISKS cfg] s))"

section \<open>Initialisation (tagline\_driver\_init)\<close>

text \<open>The loop that formats every disk still marked uninitialised.\<close>

fun format_loop :: "config \<Rightarrow> 'srv network \<Rightarrow> nat list \<Rightarrow> 'srv driver \<Rightarrow> int \<times> 'srv driver" where
  "format_loop cfg net [] s = (0, s)"
| "format_loop cfg net (currentDisk # ds) s =
     (if status (array s (int currentDisk)) = RAID_DISK_UNINITIALIZED cfg then
        (let operation = request (RAID_FORMAT cfg) 0 (int currentDisk) 0;
             (rc, unused, s) = issue cfg net operation 0 (\<lambda>k. []) s
         in if rc \<noteq> 0 then (1, s)
            else
              (let s = set_disk (int currentDisk) (\<lambda>a. a\<lparr>status := RAID_DISK_READY cfg\<rparr>) s;
                   s = set_disk (int currentDisk) (\<lambda>a. a\<lparr>blocks := - 1\<rparr>) s
               in format_loop cfg net ds s))
      else format_loop cfg net ds s)"

text \<open>
  \<^verbatim>\<open>tagline_driver_init(maxlines)\<close>.  The allocations are taken to succeed.  The rows
  \<open>i < maxlines\<close> of the table get every entry \<open>j < MAX_TAGLINE_BLOCK_NUMBER\<close> set to
  \<open>unassigned\<close> and \<^verbatim>\<open>calloc\<close> zeroes \<^verbatim>\<open>tagcounter[i]\<close>; \<open>fresh\<close> is what the cache's
  allocation returns.  The inner loop that assigns \<^verbatim>\<open>array[currentDisk].blocks = -1\<close>
  runs \<^verbatim>\<open>RAID_DISKBLOCKS\<close> times over the same assignment; its effect is that of one
  assignment when \<^verbatim>\<open>RAID_DISKBLOCKS\<close> is positive.
\<close>

definition tagline_driver_init ::
  "config \<Rightarrow> 'srv network \<Rightarrow> nat \<Rightarrow> (nat \<Rightarrow> cache) \<Rightarrow> 'srv driver \<Rightarrow> int \<times> 'srv driver" where
  "tagline_driver_init cfg net maxlines fresh s =
     (let s = s\<lparr>maxtaglines := maxlines\<rparr>;
          s = s\<lparr>cache_vars := snd (init_raid_cache (TAGLINE_CACHE_SIZE cfg) fresh (cache_vars s))\<rparr>;
          s = s\<lparr>Globtag := (\<lambda>i j. if i < maxlines \<and> j < MAX_TAGLINE_BLOCK_NUMBER cfg
                                   then unassigned else Globtag s i j)\<rparr>;
          s = s\<lparr>tagcounter := (\<lambda>i. if i < maxlines then 0 else tagcounter s i)\<rparr>;
          operation = request (RAID_INIT cfg)
                        (int (RAID_DISKBLOCKS cfg div RAID_TRACK_BLOCKS cfg + 3))
                        (int (RAID_DISKS cfg)) 0;
          (rc, unused, s) = issue cfg net operation 0 (\<lambda>k. []) s
      in if rc \<noteq> 0 then (1, s)
         else format_loop cfg net [0..<RAID_DISKS cfg] s)"

text \<open>
  The driver state when the program is loaded, for a given remote array and supply of
  random values: no disk initialised, \<^verbatim>\<open>maxtaglines = 1\<close>, everything else zero.  The
  table pointers are \<^verbatim>\<open>NULL\<close> then; the entries given here are overwritten by
  initialisation wherever the table exists afterwards.
\<close>

definition driver_globals :: "config \<Rightarrow> 'srv \<Rightarrow> nat list \<Rightarrow> 'srv driver" where
  "driver_globals cfg srv rs =
     \<lparr>maxtaglines = 1, tagcounter = (\<lambda>i. 0),
      array = (\<lambda>d. \<lparr>status = RAID_DISK_UNINITIALIZED cfg, blocks = 0\<rparr>),
      Globtag = (\<lambda>i j. \<lparr>disk = 0, diskPosition = 0, backupDisk = 0, backupDiskPosition = 0\<rparr>),
      GlobResponse = GlobResponse_init, cache_vars = cache_globals,
      remote = srv, rand_values = rs\<rparr>"

section \<open>An array in which every operation succeeds\<close>

text \<open>
  The array behind the socket is not part of the sources.  For the properties that speak
  of data surviving a write, it is taken to be a faithful block store: a WRITE of \<open>n\<close>
  blocks to disk \<open>d\<close> at block \<open>b\<close> stores the payload under \<open>(d, b), \<dots>, (d, b + n - 1)\<close>, a
  READ returns what is stored there, and every request is answered by its unchanged
  echo.  The fields of the request are taken from the opcode in the layout of
  \<^verbatim>\<open>create_raid_request\<close>.
\<close>

type_synonym store = "RAIDDiskID \<times> RAIDBlockID \<Rightarrow> block"

definition ideal_array :: "config \<Rightarrow> store network" where
  "ideal_array cfg =
     \<lparr>connect_ok = (\<lambda>srv. True),
      serve = (\<lambda>srv op sent.
         let type = uint (ucast (drop_bit 56 op) :: 8 word);
             n = unat (ucast (drop_bit 56 (push_bit 8 op)) :: 8 word);
             d = (ucast (drop_bit 40 (0xFF0000000000 AND op)) :: RAIDDiskID);
             b = (ucast (drop_bit 32 (push_bit 32 op)) :: RAIDBlockID)
         in if type = RAID_WRITE cfg then
              (op, sent, fold (\<lambda>i st. st((d, b + of_nat i) := sent i)) [0..<n] srv)
            else if type = RAID_READ cfg then (op, (\<lambda>i. srv (d, b + of_nat i)), srv)
            else (op, sent, srv))\<rparr>"

text \<open>
  The request types READ and WRITE are two different byte values, and there are between
  1 and 256 disks, so that a disk number fits the one-byte field of a request.
\<close>

definition config_ok :: "config \<Rightarrow> bool" where
  "config_ok cfg \<longleftrightarrow>
     0 \<le> RAID_READ cfg \<and> RAID_READ cfg < 256 \<and>
     0 \<le> RAID_WRITE cfg \<and> RAID_WRITE cfg < 256 \<and>
     RAID_READ cfg \<noteq> RAID_WRITE cfg \<and>
     0 < RAID_DISKS cfg \<and> RAID_DISKS cfg \<le> 256"

text \<open>
  The cache key and array address of position \<open>pos\<close> of disk \<open>d\<close>: the two \<^verbatim>\<open>int\<close>
  values converted to \<^verbatim>\<open>RAIDDiskID\<close> and \<^verbatim>\<open>RAIDBlockID\<close>.
\<close>

definition slot_key :: "int \<Rightarrow> int \<Rightarrow> RAIDDiskID \<times> RAIDBlockID" where
  "slot_key d pos = (word_of_int d, word_of_int pos)"

text \<open>A response that is the unchanged echo of a request built by \<^verbatim>\<open>create_raid_request\<close>.\<close>

definition echoed :: "RAIDOpCode \<Rightarrow> RAIDOpCode \<Rightarrow> bool" where
  "echoed operation response \<longleftrightarrow>
     response = operation \<and> (\<exists>t q d i. operation = create_raid_request t q d i)"

text \<open>
  The running example on this array: the driver as loaded, with no block stored in the
  array and \<^verbatim>\<open>rand()\<close> going to return 0 and 1, after \<^verbatim>\<open>tagline_driver_init(1)\<close> on the
  sample configuration.
\<close>

definition started :: "store driver" where
  "started =
     snd (tagline_driver_init sample_config (ideal_array sample_config) 1 fresh0
            (driver_globals sample_config (\<lambda>k. []) [0, 1]))"

section \<open>A remote array for concrete runs\<close>

text \<open>
  A scripted, recording array.  Its state is a script, a list of functions, one per coming
  request, each turning the request opcode into the response opcode, and the list of the
  opcodes received so far.  The payload is returned as it was sent; with the script used
  up every request is echoed.
\<close>

type_synonym scripted = "(RAIDOpCode \<Rightarrow> RAIDOpCode) list \<times> RAIDOpCode list"

definition sample_array :: "scripted network" where
  "sample_array =
     \<lparr>connect_ok = (\<lambda>srv. True),
      serve = (\<lambda>(script, received) op sent.
                 case script of
                   [] \<Rightarrow> (op, sent, ([], received @ [op]))
                 | f # fs \<Rightarrow> (f op, sent, (fs, received @ [op])))\<rparr>"

text \<open>
  Three response behaviours: the unchanged echo, the echo with the status bit (bit 32)
  set, and a STATUS response whose identifier reports the disk failed.
\<close>

definition echo :: "RAIDOpCode \<Rightarrow> RAIDOpCode" where
  "echo op = op"

definition status_bit_set :: "RAIDOpCode \<Rightarrow> RAIDOpCode" where
  "status_bit_set op = op OR push_bit 32 1"

definition reports_failed :: "config \<Rightarrow> RAIDOpCode \<Rightarrow> RAIDOpCode" where
  "reports_failed cfg op = op OR word_of_int (RAID_DISK_FAILED cfg)"

text \<open>
  The running example: the driver is initialised with one tagline on the sample
  configuration (one INIT and two FORMAT requests), then three blocks are appended to
  tagline 0 at block 0 (two WRITE requests).  The array answers these five requests by
  echoes and the requests after them by \<open>script\<close>; \<^verbatim>\<open>rand()\<close> returns 0, 1 and then
  \<open>rs\<close>.
\<close>

definition abc :: buffer where
  "abc i = (if i = 0 then ''a'' else if i = 1 then ''b'' else ''c'')"

definition xyz :: buffer where
  "xyz i = (if i = 0 then ''x'' else if i = 1 then ''y'' else ''z'')"

definition booted :: "(RAIDOpCode \<Rightarrow> RAIDOpCode) list \<Rightarrow> nat list \<Rightarrow> scripted driver" where
  "booted script rs =
     driver_globals sample_config (echo # echo # echo # echo # echo # script, []) (0 # 1 # rs)"

definition initialised :: "(RAIDOpCode \<Rightarrow> RAIDOpCode) list \<Rightarrow> nat list \<Rightarrow> scripted driver" where
  "initialised script rs =
     \<lparr>maxtaglines = 1, tagcounter = (\<lambda>i. 0),
      array = (\<lambda>d. if d = 0 \<or> d = 1 then \<lparr>status = 1, blocks = - 1\<rparr>
                   else \<lparr>status = 0, blocks = 0\<rparr>),
      Globtag = (\<lambda>i j. if i < 1 \<and> j < 16 then unassigned
                   else \<lparr>disk = 0, diskPosition = 0, backupDisk = 0, backupDiskPosition = 0\<rparr>),
      GlobResponse = \<lparr>r_status = 0, r_type = 1, r_blockQuantity = 0, r_diskNumber = 1, r_id = 0\<rparr>,
      cache_vars =
        \<lparr>glob_max_items = 2, objectCount = 0, hit = 0, miss = 0, insert_n = 0, get_n = 0,
         timea = 0, oldestTime = 0,
         cacheArray = [\<lparr>c_data = [], c_timestamp = 0, c_disk = - 1, c_block = - 1\<rparr>,
                       \<lparr>c_data = [], c_timestamp = 0, c_disk = - 1, c_block = - 1\<rparr>]\<rparr>,
      remote = (echo # echo # script,
                [request 0 11 2 0, request 1 0 0 0, request 1 0 1 0]),
      rand_values = 0 # 1 # rs\<rparr>"

section \<open>Predicates on driver states\<close>

text \<open>
  A table entry respects mirroring when its two disks differ; the two fields can be equal
  only while the primary side is unassigned.
\<close>

definition mirror_ok :: "tagline \<Rightarrow> bool" where
  "mirror_ok e \<longleftrightarrow> disk e \<noteq> backupDisk e \<or> disk e = - 1"

text \<open>
  A step from \<open>s\<close> to \<open>s'\<close> keeps the number of taglines and keeps every entry that
  respects mirroring in that condition.
\<close>

definition keeps_ok :: "'srv driver \<Rightarrow> 'srv driver \<Rightarrow> bool" where
  "keeps_ok s s' \<longleftrightarrow>
     maxtaglines s' = maxtaglines s \<and>
     (\<forall>t j. mirror_ok (Globtag s t j) \<longrightarrow> mirror_ok (Globtag s' t j))"

text \<open>
  The driver states that can arise: after \<^verbatim>\<open>tagline_driver_init\<close> (whatever it returns)
  and then after any number of calls of \<^verbatim>\<open>tagline_write\<close>, \<^verbatim>\<open>tagline_read\<close> and
  \<^verbatim>\<open>raid_disk_signal\<close> that return, with any arguments.  Between two calls the
  remote array may change its state on its own, and the values that \<^verbatim>\<open>rand()\<close> is going to
  return are arbitrary.  \<^verbatim>\<open>tagline_close\<close> frees the tables and ends the session; it is
  not a step.
\<close>

inductive reachable :: "config \<Rightarrow> 'srv network \<Rightarrow> 'srv driver \<Rightarrow> bool"
  for cfg :: config and net :: "'srv network" where
  after_init: "reachable cfg net (snd (tagline_driver_init cfg net maxlines fresh s0))"
| after_write: "reachable cfg net s \<Longrightarrow>
          tagline_write cfg net tag bnum blks buf s = Some (rc, buf', s') \<Longrightarrow>
          reachable cfg net s'"
| after_read: "reachable cfg net s \<Longrightarrow>
         reachable cfg net (snd (snd (tagline_read cfg net tag bnum blks buf s)))"
| after_signal: "reachable cfg net s \<Longrightarrow>
           raid_disk_signal cfg net zero s = Some (rc, s') \<Longrightarrow>
           reachable cfg net s'"
| array_event: "reachable cfg net s \<Longrightarrow> reachable cfg net (s\<lparr>remote := srv\<rparr>)"
| random_supply: "reachable cfg net s \<Longrightarrow> reachable cfg net (s\<lparr>rand_values := rs\<rparr>)"


section \<open>Properties of the request codec\<close>

lemma disk_mask_eq: "(0xFF0000000000 :: 64 word) = push_bit 40 (mask 8)"
  by (simp add: mask_eq_exp_minus_1)

lemma request_type: "ucast (drop_bit 56 (create_raid_request t q d i)) = t"
  unfolding create_raid_request_def Let_def
  by (rule bit_word_eqI) (auto simp add: bit_simps dest: bit_imp_le_length)

lemma request_quantity: "ucast (drop_bit 56 (push_bit 8 (create_raid_request t q d i))) = q"
  unfolding create_raid_request_def Let_def
  by (rule bit_word_eqI) (auto simp add: bit_simps dest: bit_imp_le_length)

lemma request_disk_raw:
  "ucast (drop_bit 40 (0xFF0000000000 AND create_raid_request t q d i)) = d"
  unfolding create_raid_request_def Let_def disk_mask_eq
  by (rule bit_word_eqI) (auto simp add: bit_simps dest: bit_imp_le_length)

lemma request_disk: "(ucast (255 AND drop_bit 40 (create_raid_request t q d i)) :: 8 word) = d"
  using request_disk_raw [of t q d i] by simp

lemma request_id: "ucast (drop_bit 32 (push_bit 32 (create_raid_request t q d i))) = i"
  unfolding create_raid_request_def Let_def
  by (rule bit_word_eqI) (auto simp add: bit_simps dest: bit_imp_le_length)

lemma request_status:
  "(ucast (drop_bit 63 (push_bit 31 (create_raid_request t q d i))) :: 8 word) = 0"
  unfolding create_raid_request_def Let_def
  by (rule bit_word_eqI) (auto simp add: bit_simps dest: bit_imp_le_length)

lemmas request_fields =
  request_type request_quantity request_disk request_id request_status

lemma extract_echo:
  "extract_raid_response cfg g (create_raid_request t q d i) (create_raid_request t q d i) =
     (0, g\<lparr>r_id := i, r_status := 0, r_diskNumber := d, r_blockQuantity := q, r_type := t\<rparr>)"
  by (simp add: extract_raid_response_def Let_def request_fields)

text \<open>
  C6.  An unchanged echo of any request validates (result 0).  A response that is the
  encoding of the same request with one field replaced by a different value is rejected
  (result 1): the type, the block count, the disk number, and the block identifier when
  the request type is not \<^verbatim>\<open>RAID_STATUS\<close>.
\<close>

theorem codec_round_trip:
  "fst (extract_raid_response cfg g (create_raid_request t q d i) (create_raid_request t q d i)) = 0
   \<and> (t' \<noteq> t \<longrightarrow>
        fst (extract_raid_response cfg g (create_raid_request t' q d i) (create_raid_request t q d i)) = 1)
   \<and> (q' \<noteq> q \<longrightarrow>
        fst (extract_raid_response cfg g (create_raid_request t q' d i) (create_raid_request t q d i)) = 1)
   \<and> (d' \<noteq> d \<longrightarrow>
        fst (extract_raid_response cfg g (create_raid_request t q d' i) (create_raid_request t q d i)) = 1)
   \<and> (i' \<noteq> i \<and> uint t \<noteq> RAID_STATUS cfg \<longrightarrow>
        fst (extract_raid_response cfg g (create_raid_request t q d i') (create_raid_request t q d i)) = 1)"
  by (simp add: extract_raid_response_def Let_def request_fields)

theorem codec_round_trip_witness:
  "fst (extract_raid_response sample_config GlobResponse_init
          (create_raid_request 3 2 1 7) (create_raid_request 3 2 1 7)) = 0
   \<and> fst (extract_raid_response sample_config GlobResponse_init
          (create_raid_request 2 2 1 7) (create_raid_request 3 2 1 7)) = 1
   \<and> fst (extract_raid_response sample_config GlobResponse_init
          (create_raid_request 3 5 1 7) (create_raid_request 3 2 1 7)) = 1
   \<and> fst (extract_raid_response sample_config GlobResponse_init
          (create_raid_request 3 2 0 7) (create_raid_request 3 2 1 7)) = 1
   \<and> fst (extract_raid_response sample_config GlobResponse_init
          (create_raid_request 3 2 1 8) (create_raid_request 3 2 1 7)) = 1"
  using codec_round_trip [of sample_config GlobResponse_init 3 2 1 7 2 5 0 8]
  by (simp add: sample_config_def)

text \<open>
  C9.  Of byte 3 of a response only the status bit (bit 32) is inspected: the echo of any
  request, changed in any of the seven bits 33 to 39, still validates (result 0).  The
  changed bits are the low seven bits of an arbitrary \<open>x\<close>, shifted to position 33.
\<close>

theorem reserved_bits_ignored:
  "fst (extract_raid_response cfg g
          (create_raid_request t q d i XOR push_bit 33 (take_bit 7 x))
          (create_raid_request t q d i)) = 0"
proof -
  define r where "r = create_raid_request t q d i XOR push_bit 33 (take_bit 7 x)"
  have st: "(ucast (drop_bit 63 (push_bit 31 r)) :: 8 word) = 0"
    unfolding r_def create_raid_request_def Let_def
    by (rule bit_word_eqI) (auto simp add: bit_simps dest: bit_imp_le_length)
  have "(ucast (drop_bit 40 (0xFF0000000000 AND r)) :: 8 word) = d"
    unfolding r_def create_raid_request_def Let_def disk_mask_eq
    by (rule bit_word_eqI) (auto simp add: bit_simps dest: bit_imp_le_length)
  then have dn: "(ucast (255 AND drop_bit 40 r) :: 8 word) = d"
    by simp
  have bq: "(ucast (drop_bit 56 (push_bit 8 r)) :: 8 word) = q"
    unfolding r_def create_raid_request_def Let_def
    by (rule bit_word_eqI) (auto simp add: bit_simps dest: bit_imp_le_length)
  have ty: "(ucast (drop_bit 56 r) :: 8 word) = t"
    unfolding r_def create_raid_request_def Let_def
    by (rule bit_word_eqI) (auto simp add: bit_simps dest: bit_imp_le_length)
  have bi: "(ucast (drop_bit 32 (push_bit 32 r)) :: 32 word) = i"
    unfolding r_def create_raid_request_def Let_def
    by (rule bit_word_eqI) (auto simp add: bit_simps dest: bit_imp_le_length)
  have "fst (extract_raid_response cfg g r (create_raid_request t q d i)) = 0"
    by (simp add: extract_raid_response_def Let_def st dn bq ty bi request_fields)
  then show ?thesis
    by (simp only: r_def)
qed

section \<open>Properties of the block cache\<close>

lemma find_slot_Some:
  "find_slot arr n dsk blk = Some i \<longleftrightarrow>
     i < n \<and> key_of (arr ! i) = (dsk, blk) \<and> (\<forall>j < i. key_of (arr ! j) \<noteq> (dsk, blk))"
  unfolding find_slot_def key_of_def find_Some_iff
  by auto

lemma find_slot_None:
  "find_slot arr n dsk blk = None \<longleftrightarrow> (\<forall>i < n. key_of (arr ! i) \<noteq> (dsk, blk))"
  unfolding find_slot_def key_of_def find_None_iff by auto

lemma oldest_loop_append:
  "oldest_loop arr (xs @ ys) acc = oldest_loop arr ys (oldest_loop arr xs acc)"
  by (induction xs arbitrary: acc) (auto split: prod.splits)

lemma oldest_loop_upt:
  "oldest_loop arr [0..<Suc k] (0, c_timestamp (arr ! 0)) = (p, t) \<Longrightarrow>
     p \<le> k \<and> t = c_timestamp (arr ! p) \<and>
     (\<forall>i \<le> k. t \<le> c_timestamp (arr ! i)) \<and> (\<forall>i < p. t < c_timestamp (arr ! i))"
proof (induction k arbitrary: p t)
  case 0
  then show ?case by (auto split: if_splits)
next
  case (Suc k)
  obtain p' t' where pt: "oldest_loop arr [0..<Suc k] (0, c_timestamp (arr ! 0)) = (p', t')"
    by (cases "oldest_loop arr [0..<Suc k] (0, c_timestamp (arr ! 0))")
  note ih = Suc.IH [OF pt]
  have "[0..<Suc (Suc k)] = [0..<Suc k] @ [Suc k]"
    by simp
  then have "oldest_loop arr [0..<Suc (Suc k)] (0, c_timestamp (arr ! 0)) =
      oldest_loop arr [Suc k] (p', t')"
    by (simp only: oldest_loop_append pt)
  with Suc.prems have step: "oldest_loop arr [Suc k] (p', t') = (p, t)"
    by simp
  show ?case
  proof (cases "c_timestamp (arr ! Suc k) < t'")
    case True
    with step have "p = Suc k" "t = c_timestamp (arr ! Suc k)" by auto
    with ih True show ?thesis
      by (auto simp: le_Suc_eq less_Suc_eq_le intro: order.strict_trans1 less_imp_le order.trans)
  next
    case False
    with step have "p = p'" "t = t'" by auto
    with ih False show ?thesis
      by (auto simp: le_Suc_eq)
  qed
qed

lemma cache_wf_init: "cache_wf fresh (snd (init_raid_cache n fresh cache_globals))"
  by (simp add: cache_wf_def init_raid_cache_def cache_globals_def key_of_def sentinel_def)

lemma real_keys_init: "real_keys (snd (init_raid_cache n fresh cache_globals))"
  by (simp add: real_keys_def init_raid_cache_def cache_globals_def)

lemma cache_wf_get:
  assumes "cache_wf fresh st"
  shows "cache_wf fresh (snd (get_raid_cache dsk blk st))"
proof (cases "find_slot (cacheArray st) (glob_max_items st) dsk blk")
  case None
  with assms show ?thesis
    by (simp add: get_raid_cache_def cache_wf_def Let_def)
next
  case (Some i)
  then have i: "i < glob_max_items st" by (simp add: find_slot_Some)
  with assms Some show ?thesis
    by (auto simp add: get_raid_cache_def cache_wf_def Let_def nth_list_update key_of_def)
qed

lemma oldest_loop_bound:
  assumes "oldest_loop arr [0..<n] (0, c_timestamp (arr ! 0)) = (p, t)" and "0 < n"
  shows "p < n"
proof -
  from \<open>0 < n\<close> obtain k where "n = Suc k"
    by (cases n) auto
  with assms(1) oldest_loop_upt [of arr k p t] show ?thesis
    by simp
qed

lemma real_keys_get:
  assumes "real_keys st" and "cache_wf fresh st"
  shows "real_keys (snd (get_raid_cache dsk blk st))"
  using assms
  by (auto simp add: get_raid_cache_def real_keys_def cache_wf_def Let_def nth_list_update
      key_of_def find_slot_Some split: option.splits)

lemma put_full_miss:
  assumes "\<not> objectCount st < glob_max_items st"
      and "find_slot (cacheArray st) (glob_max_items st) dsk blk = None"
      and "oldest_loop (cacheArray st) [0..<glob_max_items st] (0, c_timestamp (cacheArray st ! 0)) = (p, t)"
  shows "snd (put_raid_cache dsk blk buf st) =
     st\<lparr>timea := timea st + 1, miss := miss st + 1, oldestTime := t,
        cacheArray := (cacheArray st)[p := \<lparr>c_data = buf, c_timestamp = timea st + 1,
           c_disk = dsk, c_block = blk\<rparr>],
        insert_n := insert_n st + 1\<rparr>"
  using assms by (simp add: put_raid_cache_def Let_def)

lemma cache_wf_put:
  assumes "cache_wf fresh st"
  shows "cache_wf fresh (snd (put_raid_cache dsk blk buf st))"
proof (cases "objectCount st < glob_max_items st")
  case True
  show ?thesis
  proof (cases "find_slot (cacheArray st) (objectCount st) dsk blk")
    case None
    then have "\<forall>i < objectCount st. key_of (cacheArray st ! i) \<noteq> (dsk, blk)"
      by (simp add: find_slot_None)
    with assms True None show ?thesis
      by (auto simp add: put_raid_cache_def cache_wf_def Let_def nth_list_update key_of_def
          less_Suc_eq)
  next
    case (Some i)
    then have "i < objectCount st" by (simp add: find_slot_Some)
    with assms True Some show ?thesis
      by (auto simp add: put_raid_cache_def cache_wf_def Let_def nth_list_update key_of_def)
  qed
next
  case False
  with assms have full: "objectCount st = glob_max_items st"
    by (simp add: cache_wf_def)
  show ?thesis
  proof (cases "find_slot (cacheArray st) (glob_max_items st) dsk blk")
    case None
    then have nk: "\<forall>i < glob_max_items st. key_of (cacheArray st ! i) \<noteq> (dsk, blk)"
      by (simp add: find_slot_None)
    obtain p t where pt: "oldest_loop (cacheArray st) [0..<glob_max_items st]
        (0, c_timestamp (cacheArray st ! 0)) = (p, t)"
      by (cases "oldest_loop (cacheArray st) [0..<glob_max_items st]
        (0, c_timestamp (cacheArray st ! 0))")
    show ?thesis
    proof (cases "glob_max_items st = 0")
      case True
      with assms full show ?thesis
        unfolding put_full_miss [OF False None pt]
        by (simp add: cache_wf_def)
    next
      case False
      then have "p < glob_max_items st"
        using oldest_loop_bound [OF pt] by simp
      with assms full nk show ?thesis
        unfolding put_full_miss [OF \<open>\<not> objectCount st < glob_max_items st\<close> None pt]
        by (auto simp add: cache_wf_def nth_list_update key_of_def)
    qed
  next
    case (Some i)
    then have "i < glob_max_items st" by (simp add: find_slot_Some)
    with assms False Some show ?thesis
      by (auto simp add: put_raid_cache_def cache_wf_def Let_def nth_list_update key_of_def)
  qed
qed

lemma key_of_update_same:
  "key_of x = key_of (xs ! i) \<Longrightarrow> key_of (xs[i := x] ! j) = key_of (xs ! j)"
  by (cases "i = j"; cases "i < length xs") (simp_all add: list_update_beyond)

lemma key_of_update_other:
  "key_of (xs[i := x] ! j) = k \<Longrightarrow> key_of x \<noteq> k \<Longrightarrow> key_of (xs ! j) = k"
  by (cases "i = j"; cases "i < length xs") (simp_all add: list_update_beyond)

lemma real_keys_put:
  assumes "real_keys st" and "cache_wf fresh st" and "(dsk, blk) \<noteq> sentinel"
  shows "real_keys (snd (put_raid_cache dsk blk buf st))"
proof -
  have new: "key_of \<lparr>c_data = buf, c_timestamp = ts, c_disk = dsk, c_block = blk\<rparr> \<noteq> sentinel" for ts
    using assms(3) by (simp add: key_of_def)
  have old: "key_of ((cacheArray st ! i)\<lparr>c_data := buf, c_timestamp := ts\<rparr>) =
      key_of (cacheArray st ! i)" for i ts
    by (simp add: key_of_def)
  have full: "\<not> objectCount st < glob_max_items st \<Longrightarrow> objectCount st = glob_max_items st"
    using assms(2) by (simp add: cache_wf_def)
  have len: "length (cacheArray st) = glob_max_items st"
    using assms(2) by (simp add: cache_wf_def)
  show ?thesis
    using assms(1) new old full len
    by (auto simp add: put_raid_cache_def real_keys_def Let_def less_Suc_eq
        key_of_update_same nth_list_update
        dest: key_of_update_other
        split: option.splits prod.splits)
qed

lemma cache_wf_run: "cache_wf fresh st \<Longrightarrow> cache_wf fresh (cache_run ops st)"
proof (induction ops arbitrary: st)
  case Nil
  then show ?case by simp
next
  case (Cons x xs)
  then show ?case
    by (cases x) (simp_all add: cache_wf_put cache_wf_get)
qed

lemma real_keys_run: "real_keys st \<Longrightarrow> cache_wf fresh st \<Longrightarrow> real_puts ops \<Longrightarrow> real_keys (cache_run ops st)"
proof (induction ops arbitrary: st)
  case Nil
  then show ?case by simp
next
  case (Cons x xs)
  then show ?case
    by (cases x) (simp_all add: real_keys_put real_keys_get cache_wf_put cache_wf_get)
qed

lemma run_max: "glob_max_items (cache_run ops st) = glob_max_items st"
proof (induction ops arbitrary: st)
  case Nil
  then show ?case by simp
next
  case (Cons x xs)
  then show ?case
    by (cases x)
      (simp_all add: put_raid_cache_def get_raid_cache_def Let_def split: option.splits prod.splits)
qed

lemma get_miss:
  assumes "\<forall>i < glob_max_items st. key_of (cacheArray st ! i) \<noteq> (dsk, blk)"
  shows "fst (get_raid_cache dsk blk st) = None"
  using assms by (simp add: get_raid_cache_def Let_def find_slot_None [symmetric])

text \<open>
  C5.  In a cache state reached from initialisation (capacity \<open>n > 0\<close>) by any history
  of puts and gets, with all slots inserted, a put of a key that no slot holds replaces
  slot \<open>p\<close>, where \<open>p\<close> is the slot of the smallest timestamp and, among the slots of
  that timestamp, the one of the lowest index.  The slot becomes the new entry, and a get of
  the key it held before is a miss.
\<close>

theorem eviction_of_oldest:
  assumes reach: "st = cache_run ops (snd (init_raid_cache n fresh cache_globals))"
      and pos: "0 < n"
      and full: "objectCount st = glob_max_items st"
      and absent: "\<forall>i < glob_max_items st. key_of (cacheArray st ! i) \<noteq> (dsk, blk)"
  shows "\<exists>p < glob_max_items st.
           (\<forall>i < glob_max_items st. c_timestamp (cacheArray st ! p) \<le> c_timestamp (cacheArray st ! i)) \<and>
           (\<forall>i < p. c_timestamp (cacheArray st ! p) < c_timestamp (cacheArray st ! i)) \<and>
           cacheArray (snd (put_raid_cache dsk blk buf st)) =
             (cacheArray st)[p := \<lparr>c_data = buf, c_timestamp = timea st + 1, c_disk = dsk, c_block = blk\<rparr>] \<and>
           fst (get_raid_cache (c_disk (cacheArray st ! p)) (c_block (cacheArray st ! p))
                  (snd (put_raid_cache dsk blk buf st))) = None"
proof -
  have wf: "cache_wf fresh st"
    unfolding reach by (rule cache_wf_run [OF cache_wf_init])
  have n: "glob_max_items st = n"
    unfolding reach by (simp add: run_max init_raid_cache_def)
  from pos n obtain k where k: "glob_max_items st = Suc k"
    by (cases n) auto
  obtain p t where pt: "oldest_loop (cacheArray st) [0..<glob_max_items st]
      (0, c_timestamp (cacheArray st ! 0)) = (p, t)"
    by (cases "oldest_loop (cacheArray st) [0..<glob_max_items st]
      (0, c_timestamp (cacheArray st ! 0))")
  from oldest_loop_upt [of "cacheArray st" k p t] pt k
  have p: "p < glob_max_items st" "t = c_timestamp (cacheArray st ! p)"
    "\<forall>i < glob_max_items st. t \<le> c_timestamp (cacheArray st ! i)"
    "\<forall>i < p. t < c_timestamp (cacheArray st ! i)"
    by (auto simp: less_Suc_eq_le)
  have notless: "\<not> objectCount st < glob_max_items st"
    using full by simp
  have none: "find_slot (cacheArray st) (glob_max_items st) dsk blk = None"
    using absent by (simp add: find_slot_None)
  let ?st' = "snd (put_raid_cache dsk blk buf st)"
  have arr': "cacheArray ?st' = (cacheArray st)[p := \<lparr>c_data = buf, c_timestamp = timea st + 1,
      c_disk = dsk, c_block = blk\<rparr>]"
    unfolding put_full_miss [OF notless none pt] by simp
  have max': "glob_max_items ?st' = glob_max_items st"
    unfolding put_full_miss [OF notless none pt] by simp
  have len: "length (cacheArray st) = glob_max_items st"
    using wf by (simp add: cache_wf_def)
  have dist: "\<forall>i < glob_max_items st. i \<noteq> p \<longrightarrow> key_of (cacheArray st ! i) \<noteq> key_of (cacheArray st ! p)"
    using wf full p(1) by (simp add: cache_wf_def)
  have "\<forall>i < glob_max_items ?st'. key_of (cacheArray ?st' ! i) \<noteq> key_of (cacheArray st ! p)"
    using dist absent p(1) len unfolding arr' max'
    by (auto simp add: nth_list_update key_of_def)
  then have "fst (get_raid_cache (c_disk (cacheArray st ! p)) (c_block (cacheArray st ! p)) ?st') = None"
    using get_miss [of ?st' "c_disk (cacheArray st ! p)" "c_block (cacheArray st ! p)"]
    by (simp add: key_of_def)
  with p arr' show ?thesis
    by blast
qed

theorem eviction_of_oldest_witness:
  "objectCount (cache_run [Put 0 0 ''a'', Put 0 1 ''b'', Get 0 0]
       (snd (init_raid_cache 2 fresh0 cache_globals))) = 2
   \<and> cacheArray (cache_run [Put 0 0 ''a'', Put 0 1 ''b'', Get 0 0]
       (snd (init_raid_cache 2 fresh0 cache_globals))) =
       [\<lparr>c_data = ''a'', c_timestamp = 3, c_disk = 0, c_block = 0\<rparr>,
        \<lparr>c_data = ''b'', c_timestamp = 2, c_disk = 0, c_block = 1\<rparr>]
   \<and> cacheArray (snd (put_raid_cache 1 5 ''c''
         (cache_run [Put 0 0 ''a'', Put 0 1 ''b'', Get 0 0]
           (snd (init_raid_cache 2 fresh0 cache_globals))))) =
       [\<lparr>c_data = ''a'', c_timestamp = 3, c_disk = 0, c_block = 0\<rparr>,
        \<lparr>c_data = ''c'', c_timestamp = 4, c_disk = 1, c_block = 5\<rparr>]
   \<and> fst (get_raid_cache 0 1 (snd (put_raid_cache 1 5 ''c''
         (cache_run [Put 0 0 ''a'', Put 0 1 ''b'', Get 0 0]
           (snd (init_raid_cache 2 fresh0 cache_globals)))))) = None"
proof -
  define st where "st = cache_run [Put 0 0 ''a'', Put 0 1 ''b'', Get 0 0]
       (snd (init_raid_cache 2 fresh0 cache_globals))"
  have arr: "cacheArray st =
       [\<lparr>c_data = ''a'', c_timestamp = 3, c_disk = 0, c_block = 0\<rparr>,
        \<lparr>c_data = ''b'', c_timestamp = 2, c_disk = 0, c_block = 1\<rparr>]"
    and cnt: "objectCount st = 2" and mx: "glob_max_items st = 2" and tm: "timea st = 3"
    by (simp_all add: st_def init_raid_cache_def cache_globals_def put_raid_cache_def
        get_raid_cache_def Let_def find_slot_def fresh0_def upt_conv_Cons)
  have absent: "\<forall>i < glob_max_items st. key_of (cacheArray st ! i) \<noteq> (1, 5)"
    by (simp add: arr mx key_of_def less_Suc_eq numeral_2_eq_2)
  from eviction_of_oldest [where dsk = 1 and blk = 5 and buf = "''c''", OF st_def] absent cnt mx
  obtain p where p: "p < 2"
    "\<forall>i < 2. c_timestamp (cacheArray st ! p) \<le> c_timestamp (cacheArray st ! i)"
    "cacheArray (snd (put_raid_cache 1 5 ''c'' st)) =
       (cacheArray st)[p := \<lparr>c_data = ''c'', c_timestamp = timea st + 1, c_disk = 1, c_block = 5\<rparr>]"
    "fst (get_raid_cache (c_disk (cacheArray st ! p)) (c_block (cacheArray st ! p))
           (snd (put_raid_cache 1 5 ''c'' st))) = None"
    by auto
  from p(1) have "p = 0 \<or> p = 1"
    by auto
  moreover have "p \<noteq> 0"
  proof
    assume "p = 0"
    with p(2) have "c_timestamp (cacheArray st ! 0) \<le> c_timestamp (cacheArray st ! 1)"
      by simp
    then show False
      by (simp add: arr)
  qed
  ultimately have "p = 1"
    by simp
  with p(3,4) arr cnt tm show ?thesis
    unfolding st_def [symmetric] by simp
qed

lemma find_slot_le:
  assumes "n' < n" and "key_of (arr ! n') = (dsk, blk)"
  shows "\<exists>i \<le> n'. find_slot arr n dsk blk = Some i"
proof (cases "find_slot arr n dsk blk")
  case None
  with assms show ?thesis
    by (simp add: find_slot_None)
next
  case (Some i)
  then have "\<forall>j < i. key_of (arr ! j) \<noteq> (dsk, blk)"
    by (simp add: find_slot_Some)
  with assms(2) have "\<not> n' < i"
    by blast
  with Some show ?thesis
    by simp
qed

text \<open>
  C10, as stated, fails: after \<^verbatim>\<open>put_raid_cache(-1, -1, "x")\<close> on an empty cache of two
  slots the cache holds one entry, fewer than its capacity, and a get with the sentinel
  key hits slot 0, the slot that put inserted, and finds the payload that put stored.
\<close>

theorem sentinel_hit_inserted_slot:
  "objectCount (cache_run [Put (- 1) (- 1) ''x''] (snd (init_raid_cache 2 fresh0 cache_globals))) = 1
   \<and> glob_max_items (cache_run [Put (- 1) (- 1) ''x''] (snd (init_raid_cache 2 fresh0 cache_globals))) = 2
   \<and> fst (get_raid_cache (- 1) (- 1)
         (cache_run [Put (- 1) (- 1) ''x''] (snd (init_raid_cache 2 fresh0 cache_globals)))) = Some 0
   \<and> c_data (cacheArray
         (cache_run [Put (- 1) (- 1) ''x''] (snd (init_raid_cache 2 fresh0 cache_globals))) ! 0) = ''x''"
  by (simp add: init_raid_cache_def cache_globals_def put_raid_cache_def
      get_raid_cache_def Let_def find_slot_def fresh0_def upt_conv_Cons)

text \<open>
  C10, amended.  In a cache state reached from initialisation by any history of puts and
  gets and holding fewer entries than its capacity, a get with the sentinel key is a hit,
  never a miss.  When no put of the history used the sentinel key, the slot hit is slot
  \<^verbatim>\<open>objectCount\<close>, the first slot that was never inserted, and its payload is the one
  initialisation left there.
\<close>

theorem sentinel_get_hits:
  assumes reach: "st = cache_run ops (snd (init_raid_cache n fresh cache_globals))"
      and room: "objectCount st < glob_max_items st"
  shows "\<exists>i \<le> objectCount st.
           fst (get_raid_cache (- 1) (- 1) st) = Some i \<and>
           (real_puts ops \<longrightarrow>
              i = objectCount st \<and> c_data (cacheArray st ! i) = c_data (fresh i))"
proof -
  have wf: "cache_wf fresh st"
    unfolding reach by (rule cache_wf_run [OF cache_wf_init])
  from wf room have key: "key_of (cacheArray st ! objectCount st) = (- 1, - 1)"
    and dat: "c_data (cacheArray st ! objectCount st) = c_data (fresh (objectCount st))"
    by (simp_all add: cache_wf_def sentinel_def)
  from find_slot_le [OF room key]
  obtain i where i: "i \<le> objectCount st"
    "find_slot (cacheArray st) (glob_max_items st) (- 1) (- 1) = Some i"
    by blast
  have hit: "fst (get_raid_cache (- 1) (- 1) st) = Some i"
    using i(2) by (simp add: get_raid_cache_def Let_def)
  have "i = objectCount st" if "real_puts ops"
  proof -
    from that have "real_keys st"
      unfolding reach by (rule real_keys_run [OF real_keys_init cache_wf_init])
    then have "\<forall>j < objectCount st. key_of (cacheArray st ! j) \<noteq> (- 1, - 1)"
      by (simp add: real_keys_def sentinel_def)
    moreover from i(2) have "key_of (cacheArray st ! i) = (- 1, - 1)"
      by (simp add: find_slot_Some)
    ultimately show ?thesis
      using i(1) by (cases "i < objectCount st") auto
  qed
  with hit dat i(1) show ?thesis
    by auto
qed

theorem sentinel_get_hits_witness:
  "objectCount (cache_run [Put 0 7 ''a''] (snd (init_raid_cache 2 fresh0 cache_globals))) = 1
   \<and> glob_max_items (cache_run [Put 0 7 ''a''] (snd (init_raid_cache 2 fresh0 cache_globals))) = 2
   \<and> real_puts [Put 0 7 ''a'']
   \<and> fst (get_raid_cache (- 1) (- 1)
         (cache_run [Put 0 7 ''a''] (snd (init_raid_cache 2 fresh0 cache_globals)))) = Some 1
   \<and> c_data (cacheArray
         (cache_run [Put 0 7 ''a''] (snd (init_raid_cache 2 fresh0 cache_globals))) ! 1) = c_data (fresh0 1)"
proof -
  define st where "st = cache_run [Put 0 7 ''a''] (snd (init_raid_cache 2 fresh0 cache_globals))"
  have cnt: "objectCount st = 1" and mx: "glob_max_items st = 2"
    by (simp_all add: st_def init_raid_cache_def cache_globals_def put_raid_cache_def
        Let_def find_slot_def fresh0_def upt_conv_Cons)
  have rp: "real_puts [Put 0 7 ''a'']"
    by (simp add: sentinel_def)
  from sentinel_get_hits [OF st_def] cnt mx rp
  have "fst (get_raid_cache (- 1) (- 1) st) = Some 1 \<and> c_data (cacheArray st ! 1) = c_data (fresh0 1)"
    by auto
  with cnt mx rp show ?thesis
    unfolding st_def [symmetric] by simp
qed

subsection \<open>What a lookup finds after puts and gets\<close>

lemma put_found_low:
  assumes "objectCount st < glob_max_items st"
      and "find_slot (cacheArray st) (objectCount st) dsk blk = Some i"
  shows "snd (put_raid_cache dsk blk buf st) =
     st\<lparr>timea := timea st + 1, hit := hit st + 1,
        cacheArray := (cacheArray st)[i := (cacheArray st ! i)\<lparr>c_data := buf, c_timestamp := timea st + 1\<rparr>],
        insert_n := insert_n st + 1\<rparr>"
  using assms by (simp add: put_raid_cache_def Let_def)

lemma put_insert:
  assumes "objectCount st < glob_max_items st"
      and "find_slot (cacheArray st) (objectCount st) dsk blk = None"
  shows "snd (put_raid_cache dsk blk buf st) =
     st\<lparr>timea := timea st + 1,
        cacheArray := (cacheArray st)[objectCount st :=
           \<lparr>c_data = buf, c_timestamp = timea st + 1, c_disk = dsk, c_block = blk\<rparr>],
        objectCount := objectCount st + 1,
        insert_n := insert_n st + 1\<rparr>"
  using assms by (simp add: put_raid_cache_def Let_def)

lemma put_found_full:
  assumes "\<not> objectCount st < glob_max_items st"
      and "find_slot (cacheArray st) (glob_max_items st) dsk blk = Some i"
  shows "snd (put_raid_cache dsk blk buf st) =
     st\<lparr>timea := timea st + 1, hit := hit st + 1,
        cacheArray := (cacheArray st)[i := (cacheArray st ! i)\<lparr>c_data := buf, c_timestamp := timea st + 1\<rparr>],
        insert_n := insert_n st + 1\<rparr>"
  using assms by (simp add: put_raid_cache_def Let_def)

text \<open>The four ways a put changes the array, as one statement.\<close>

lemma put_cases:
  assumes wf: "cache_wf fresh st" and pos: "0 < glob_max_items st"
  obtains
    (refresh) i where "i < glob_max_items st" "key_of (cacheArray st ! i) = (dsk, blk)"
      "\<forall>j < i. key_of (cacheArray st ! j) \<noteq> (dsk, blk)"
      "cacheArray (snd (put_raid_cache dsk blk buf st)) =
         (cacheArray st)[i := (cacheArray st ! i)\<lparr>c_data := buf, c_timestamp := timea st + 1\<rparr>]"
  | (insert) "objectCount st < glob_max_items st"
      "\<forall>j < objectCount st. key_of (cacheArray st ! j) \<noteq> (dsk, blk)"
      "cacheArray (snd (put_raid_cache dsk blk buf st)) =
         (cacheArray st)[objectCount st :=
           \<lparr>c_data = buf, c_timestamp = timea st + 1, c_disk = dsk, c_block = blk\<rparr>]"
  | (evict) p where "objectCount st = glob_max_items st" "p < glob_max_items st"
      "\<forall>j < glob_max_items st. key_of (cacheArray st ! j) \<noteq> (dsk, blk)"
      "cacheArray (snd (put_raid_cache dsk blk buf st)) =
         (cacheArray st)[p := \<lparr>c_data = buf, c_timestamp = timea st + 1, c_disk = dsk, c_block = blk\<rparr>]"
proof (cases "objectCount st < glob_max_items st")
  case True
  show ?thesis
  proof (cases "find_slot (cacheArray st) (objectCount st) dsk blk")
    case None
    show ?thesis
    proof (rule insert)
      show "objectCount st < glob_max_items st" by (rule True)
      show "\<forall>j < objectCount st. key_of (cacheArray st ! j) \<noteq> (dsk, blk)"
        using None by (simp add: find_slot_None)
      show "cacheArray (snd (put_raid_cache dsk blk buf st)) =
         (cacheArray st)[objectCount st :=
           \<lparr>c_data = buf, c_timestamp = timea st + 1, c_disk = dsk, c_block = blk\<rparr>]"
        by (simp add: put_insert [OF True None])
    qed
  next
    case (Some i)
    show ?thesis
    proof (rule refresh [of i])
      from Some True show "i < glob_max_items st"
        by (simp add: find_slot_Some)
      from Some show "key_of (cacheArray st ! i) = (dsk, blk)"
        "\<forall>j < i. key_of (cacheArray st ! j) \<noteq> (dsk, blk)"
        by (simp_all add: find_slot_Some)
      show "cacheArray (snd (put_raid_cache dsk blk buf st)) =
         (cacheArray st)[i := (cacheArray st ! i)\<lparr>c_data := buf, c_timestamp := timea st + 1\<rparr>]"
        by (simp add: put_found_low [OF True Some])
    qed
  qed
next
  case False
  with wf have full: "objectCount st = glob_max_items st"
    by (simp add: cache_wf_def)
  show ?thesis
  proof (cases "find_slot (cacheArray st) (glob_max_items st) dsk blk")
    case None
    obtain p t where pt: "oldest_loop (cacheArray st) [0..<glob_max_items st]
        (0, c_timestamp (cacheArray st ! 0)) = (p, t)"
      by (cases "oldest_loop (cacheArray st) [0..<glob_max_items st]
        (0, c_timestamp (cacheArray st ! 0))")
    show ?thesis
    proof (rule evict [of p])
      show "objectCount st = glob_max_items st" by (rule full)
      show "p < glob_max_items st" by (rule oldest_loop_bound [OF pt pos])
      show "\<forall>j < glob_max_items st. key_of (cacheArray st ! j) \<noteq> (dsk, blk)"
        using None by (simp add: find_slot_None)
      show "cacheArray (snd (put_raid_cache dsk blk buf st)) =
         (cacheArray st)[p := \<lparr>c_data = buf, c_timestamp = timea st + 1, c_disk = dsk, c_block = blk\<rparr>]"
        by (simp add: put_full_miss [OF False None pt])
    qed
  next
    case (Some i)
    show ?thesis
    proof (rule refresh [of i])
      from Some show "i < glob_max_items st" "key_of (cacheArray st ! i) = (dsk, blk)"
        "\<forall>j < i. key_of (cacheArray st ! j) \<noteq> (dsk, blk)"
        by (simp_all add: find_slot_Some)
      show "cacheArray (snd (put_raid_cache dsk blk buf st)) =
         (cacheArray st)[i := (cacheArray st ! i)\<lparr>c_data := buf, c_timestamp := timea st + 1\<rparr>]"
        by (simp add: put_found_full [OF False Some])
    qed
  qed
qed

lemma put_max [simp]: "glob_max_items (snd (put_raid_cache dsk blk buf st)) = glob_max_items st"
  by (simp add: put_raid_cache_def Let_def split: option.splits prod.splits)

lemma get_max [simp]: "glob_max_items (snd (get_raid_cache dsk blk st)) = glob_max_items st"
  by (simp add: get_raid_cache_def Let_def split: option.splits)

lemma put_same:
  assumes wf: "cache_wf fresh st" and pos: "0 < glob_max_items st"
  shows "cached (snd (put_raid_cache dsk blk buf st)) (dsk, blk) buf"
proof -
  have len: "length (cacheArray st) = glob_max_items st"
    and oc: "objectCount st \<le> glob_max_items st"
    using wf by (simp_all add: cache_wf_def)
  let ?st' = "snd (put_raid_cache dsk blk buf st)"
  have "c_data (cacheArray ?st' ! j) = buf"
    if j: "find_slot (cacheArray ?st') (glob_max_items st) dsk blk = Some j" for j
  proof -
    from j have j1: "j < glob_max_items st" "key_of (cacheArray ?st' ! j) = (dsk, blk)"
      and j2: "\<forall>m < j. key_of (cacheArray ?st' ! m) \<noteq> (dsk, blk)"
      by (simp_all add: find_slot_Some)
    from wf pos show ?thesis
    proof (cases rule: put_cases [where dsk = dsk and blk = blk and buf = buf])
      case (refresh i)
      have "\<not> i < j"
        using j2 refresh(1,2,4) len by (auto simp add: key_of_def)
      moreover have "\<not> j < i"
        using j1 refresh(1,3,4) len by (auto simp add: key_of_def nth_list_update)
      ultimately have "j = i" by simp
      with refresh(1,4) len show ?thesis by simp
    next
      case insert
      have "\<not> objectCount st < j"
        using j2 insert(1,3) len by (auto simp add: key_of_def)
      moreover have "\<not> j < objectCount st"
        using j1 insert len by (auto simp add: nth_list_update)
      ultimately have "j = objectCount st" by simp
      with insert(1,3) len show ?thesis by simp
    next
      case (evict p)
      have "j = p"
        using j1 evict(2,3,4) len by (auto simp add: nth_list_update split: if_splits)
      with evict(2,4) len show ?thesis by simp
    qed
  qed
  then show ?thesis
    by (simp add: cached_def split: option.splits)
qed

lemma put_other:
  assumes wf: "cache_wf fresh st" and pos: "0 < glob_max_items st"
      and ne: "k \<noteq> (dsk, blk)" and real: "k \<noteq> sentinel"
      and old: "cached st k v"
  shows "cached (snd (put_raid_cache dsk blk buf st)) k v"
proof -
  have len: "length (cacheArray st) = glob_max_items st"
    and oc: "objectCount st \<le> glob_max_items st"
    and unused: "\<forall>i < glob_max_items st. objectCount st \<le> i \<longrightarrow> key_of (cacheArray st ! i) = sentinel"
    and dist: "\<forall>i < objectCount st. \<forall>j < objectCount st.
        i \<noteq> j \<longrightarrow> key_of (cacheArray st ! i) \<noteq> key_of (cacheArray st ! j)"
    using wf by (simp_all add: cache_wf_def)
  let ?st' = "snd (put_raid_cache dsk blk buf st)"
  have "c_data (cacheArray ?st' ! j) = v"
    if j: "find_slot (cacheArray ?st') (glob_max_items st) (fst k) (snd k) = Some j" for j
  proof -
    from j have j1: "j < glob_max_items st" "key_of (cacheArray ?st' ! j) = k"
      and j2: "\<forall>m < j. key_of (cacheArray ?st' ! m) \<noteq> k"
      by (simp_all add: find_slot_Some)
    from wf pos show ?thesis
    proof (cases rule: put_cases [where dsk = dsk and blk = blk and buf = buf])
      case (refresh i)
      have keys: "key_of (cacheArray ?st' ! m) = key_of (cacheArray st ! m)" for m
        unfolding refresh(4) by (rule key_of_update_same) (simp add: key_of_def)
      have "j \<noteq> i"
        using j1(2) refresh(2) ne keys by auto
      have "find_slot (cacheArray st) (glob_max_items st) (fst k) (snd k) = Some j"
        using j1 j2 keys by (simp add: find_slot_Some)
      with old have "c_data (cacheArray st ! j) = v"
        by (simp add: cached_def)
      with \<open>j \<noteq> i\<close> refresh(4) show ?thesis by simp
    next
      case insert
      have at: "key_of (cacheArray st ! objectCount st) = sentinel"
        using unused insert(1) by simp
      have keys: "key_of (cacheArray ?st' ! m) = k \<longleftrightarrow> key_of (cacheArray st ! m) = k" for m
        using insert(1,3) at real ne len
        by (cases "m = objectCount st") (auto simp add: key_of_def)
      have "j \<noteq> objectCount st"
        using j1(2) keys at real by auto
      have "find_slot (cacheArray st) (glob_max_items st) (fst k) (snd k) = Some j"
        using j1 j2 keys by (simp add: find_slot_Some)
      with old have "c_data (cacheArray st ! j) = v"
        by (simp add: cached_def)
      with \<open>j \<noteq> objectCount st\<close> insert(3) show ?thesis by simp
    next
      case (evict p)
      have "j \<noteq> p"
        using j1(2) evict(2,4) ne len by (auto simp add: key_of_def)
      then have kj: "key_of (cacheArray st ! j) = k"
        using j1(2) evict(4) by simp
      have "key_of (cacheArray st ! m) \<noteq> k" if "m < j" for m
      proof (cases "m = p")
        case True
        with that j1(1) evict(1,2) dist \<open>j \<noteq> p\<close> kj show ?thesis
          by (metis less_trans)
      next
        case False
        with j2 that evict(4) show ?thesis
          by (metis nth_list_update_neq)
      qed
      with j1(1) kj have "find_slot (cacheArray st) (glob_max_items st) (fst k) (snd k) = Some j"
        by (simp add: find_slot_Some)
      with old have "c_data (cacheArray st ! j) = v"
        by (simp add: cached_def)
      with \<open>j \<noteq> p\<close> evict(4) show ?thesis by simp
    qed
  qed
  then show ?thesis
    by (simp add: cached_def split: option.splits)
qed

lemma get_cached: "cached (snd (get_raid_cache dsk blk st)) k v \<longleftrightarrow> cached st k v"
proof (cases "find_slot (cacheArray st) (glob_max_items st) dsk blk")
  case None
  then show ?thesis
    by (simp add: get_raid_cache_def Let_def cached_def split: option.splits)
next
  case (Some i)
  have keys: "key_of ((cacheArray st)[i := (cacheArray st ! i)\<lparr>c_timestamp := t\<rparr>] ! m) =
      key_of (cacheArray st ! m)" for m t
    by (rule key_of_update_same) (simp add: key_of_def)
  have fs: "find_slot ((cacheArray st)[i := (cacheArray st ! i)\<lparr>c_timestamp := t\<rparr>]) n a b =
      find_slot (cacheArray st) n a b" for t n a b
  proof (cases "find_slot (cacheArray st) n a b")
    case None
    then have "find_slot ((cacheArray st)[i := (cacheArray st ! i)\<lparr>c_timestamp := t\<rparr>]) n a b = None"
      by (simp add: find_slot_None keys)
    with None show ?thesis by simp
  next
    case (Some j)
    then have "find_slot ((cacheArray st)[i := (cacheArray st ! i)\<lparr>c_timestamp := t\<rparr>]) n a b = Some j"
      by (simp add: find_slot_Some keys)
    with Some show ?thesis by simp
  qed
  have dat: "c_data ((cacheArray st)[i := (cacheArray st ! i)\<lparr>c_timestamp := t\<rparr>] ! m) =
      c_data (cacheArray st ! m)" for m t
    by (cases "m = i"; cases "i < length (cacheArray st)") (simp_all add: list_update_beyond)
  from Some show ?thesis
    by (simp add: get_raid_cache_def Let_def cached_def fs dat split: option.splits)
qed

lemma get_hit:
  assumes "fst (get_raid_cache dsk blk st) = Some i" and "cached st (dsk, blk) v"
  shows "c_data (cacheArray (snd (get_raid_cache dsk blk st)) ! i) = v"
proof -
  from assms(1) have f: "find_slot (cacheArray st) (glob_max_items st) dsk blk = Some i"
    by (simp add: get_raid_cache_def Let_def split: option.splits)
  with assms(2) have "c_data (cacheArray st ! i) = v"
    by (simp add: cached_def)
  moreover have "c_data ((cacheArray st)[i := (cacheArray st ! i)\<lparr>c_timestamp := t\<rparr>] ! i) =
      c_data (cacheArray st ! i)" for t
    by (cases "i < length (cacheArray st)") (simp_all add: list_update_beyond)
  ultimately show ?thesis
    using f by (simp add: get_raid_cache_def Let_def)
qed


section \<open>Properties of the driver\<close>

subsection \<open>What each step leaves unchanged\<close>

lemmas [simp del] = avoid_primary.simps avoid_mirror.simps

lemma cache_put_frame [simp]:
  "Globtag (cache_put d p b s) = Globtag s"
  "array (cache_put d p b s) = array s"
  "tagcounter (cache_put d p b s) = tagcounter s"
  "maxtaglines (cache_put d p b s) = maxtaglines s"
  "remote (cache_put d p b s) = remote s"
  "rand_values (cache_put d p b s) = rand_values s"
  "GlobResponse (cache_put d p b s) = GlobResponse s"
  by (simp_all add: cache_put_def)

lemma bus_frame [simp]:
  "Globtag (snd (snd (bus cfg net op off buf s))) = Globtag s"
  "array (snd (snd (bus cfg net op off buf s))) = array s"
  "tagcounter (snd (snd (bus cfg net op off buf s))) = tagcounter s"
  "maxtaglines (snd (snd (bus cfg net op off buf s))) = maxtaglines s"
  "rand_values (snd (snd (bus cfg net op off buf s))) = rand_values s"
  "GlobResponse (snd (snd (bus cfg net op off buf s))) = GlobResponse s"
  "cache_vars (snd (snd (bus cfg net op off buf s))) = cache_vars s"
  by (simp_all add: bus_def split_def Let_def)

lemma check_response_frame [simp]:
  "Globtag (snd (check_response cfg r op s)) = Globtag s"
  "array (snd (check_response cfg r op s)) = array s"
  "tagcounter (snd (check_response cfg r op s)) = tagcounter s"
  "maxtaglines (snd (check_response cfg r op s)) = maxtaglines s"
  "rand_values (snd (check_response cfg r op s)) = rand_values s"
  "remote (snd (check_response cfg r op s)) = remote s"
  "cache_vars (snd (check_response cfg r op s)) = cache_vars s"
  by (simp_all add: check_response_def split_def Let_def)

lemma issue_frame [simp]:
  "Globtag (snd (snd (issue cfg net op off buf s))) = Globtag s"
  "array (snd (snd (issue cfg net op off buf s))) = array s"
  "tagcounter (snd (snd (issue cfg net op off buf s))) = tagcounter s"
  "maxtaglines (snd (snd (issue cfg net op off buf s))) = maxtaglines s"
  "rand_values (snd (snd (issue cfg net op off buf s))) = rand_values s"
  "cache_vars (snd (snd (issue cfg net op off buf s))) = cache_vars s"
  by (simp_all add: issue_def split_def Let_def)

lemma put_primary_frame [simp]:
  "Globtag (put_primary tag bnum buf is s) = Globtag s"
  "array (put_primary tag bnum buf is s) = array s"
  "tagcounter (put_primary tag bnum buf is s) = tagcounter s"
  "maxtaglines (put_primary tag bnum buf is s) = maxtaglines s"
  "rand_values (put_primary tag bnum buf is s) = rand_values s"
  "remote (put_primary tag bnum buf is s) = remote s"
  "GlobResponse (put_primary tag bnum buf is s) = GlobResponse s"
  by (induction "is" arbitrary: s; simp)+

lemma put_mirror_frame [simp]:
  "Globtag (put_mirror tag bnum buf is s) = Globtag s"
  "array (put_mirror tag bnum buf is s) = array s"
  "tagcounter (put_mirror tag bnum buf is s) = tagcounter s"
  "maxtaglines (put_mirror tag bnum buf is s) = maxtaglines s"
  "rand_values (put_mirror tag bnum buf is s) = rand_values s"
  "remote (put_mirror tag bnum buf is s) = remote s"
  "GlobResponse (put_mirror tag bnum buf is s) = GlobResponse s"
  by (induction "is" arbitrary: s; simp)+

lemma put_fresh_frame [simp]:
  "Globtag (put_fresh d buf is s) = Globtag s"
  "array (put_fresh d buf is s) = array s"
  "tagcounter (put_fresh d buf is s) = tagcounter s"
  "maxtaglines (put_fresh d buf is s) = maxtaglines s"
  "rand_values (put_fresh d buf is s) = rand_values s"
  "remote (put_fresh d buf is s) = remote s"
  "GlobResponse (put_fresh d buf is s) = GlobResponse s"
  by (induction "is" arbitrary: s; simp)+

lemma avoid_primary_result:
  "avoid_primary cfg x y dsk rs = Some (d, rs') \<Longrightarrow> d \<noteq> x \<and> d \<noteq> y"
proof (induction cfg x y dsk rs rule: avoid_primary.induct)
  case (1 cfg x y dsk rs)
  show ?case
  proof (cases "x = dsk \<or> y = dsk")
    case True
    with "1.prems" obtain dsk' c rs1 where
      c: "chooseDisk cfg (Some dsk) None 1 rs = Some (Some dsk', c, rs1)"
      and r: "avoid_primary cfg x y dsk' rs1 = Some (d, rs')"
      by (subst (asm) avoid_primary.simps) (auto split: option.splits)
    from "1.IH" [OF True c refl refl refl r] show ?thesis .
  next
    case False
    with "1.prems" show ?thesis
      by (subst (asm) avoid_primary.simps) auto
  qed
qed

lemma avoid_mirror_result:
  "avoid_mirror cfg x y bdsk rs = Some (b, rs') \<Longrightarrow> b \<noteq> x \<and> b \<noteq> y"
proof (induction cfg x y bdsk rs rule: avoid_mirror.induct)
  case (1 cfg x y bdsk rs)
  show ?case
  proof (cases "x = bdsk \<or> y = bdsk")
    case True
    with "1.prems" obtain c bdsk' rs1 where
      c: "chooseDisk cfg None (Some bdsk) 1 rs = Some (c, Some bdsk', rs1)"
      and r: "avoid_mirror cfg x y bdsk' rs1 = Some (b, rs')"
      by (subst (asm) avoid_mirror.simps) (auto split: option.splits)
    from "1.IH" [OF True c refl refl refl r] show ?thesis .
  next
    case False
    with "1.prems" show ?thesis
      by (subst (asm) avoid_mirror.simps) auto
  qed
qed

lemma set_tag_frame [simp]:
  "array (set_tag tag j f s) = array s"
  "tagcounter (set_tag tag j f s) = tagcounter s"
  "maxtaglines (set_tag tag j f s) = maxtaglines s"
  "rand_values (set_tag tag j f s) = rand_values s"
  "remote (set_tag tag j f s) = remote s"
  "cache_vars (set_tag tag j f s) = cache_vars s"
  "GlobResponse (set_tag tag j f s) = GlobResponse s"
  "Globtag (set_tag tag j f s) t k = (if t = tag \<and> k = j then f (Globtag s t k) else Globtag s t k)"
  by (simp_all add: set_tag_def)

lemma set_disk_frame [simp]:
  "Globtag (set_disk d f s) = Globtag s"
  "tagcounter (set_disk d f s) = tagcounter s"
  "maxtaglines (set_disk d f s) = maxtaglines s"
  "rand_values (set_disk d f s) = rand_values s"
  "remote (set_disk d f s) = remote s"
  "cache_vars (set_disk d f s) = cache_vars s"
  "GlobResponse (set_disk d f s) = GlobResponse s"
  "array (set_disk d f s) d' = (if d' = d then f (array s d') else array s d')"
  by (simp_all add: set_disk_def)

lemma keeps_ok_refl: "keeps_ok s s"
  by (simp add: keeps_ok_def)

lemma keeps_ok_trans: "keeps_ok s s' \<Longrightarrow> keeps_ok s' s'' \<Longrightarrow> keeps_ok s s''"
  by (simp add: keeps_ok_def)

lemma keeps_ok_same: "Globtag s' = Globtag s \<Longrightarrow> maxtaglines s' = maxtaglines s \<Longrightarrow> keeps_ok s s'"
  by (simp add: keeps_ok_def)

lemma primary_rest_ok:
  "primary_rest cfg net tag bnum ba is (dsk, lb, buf, s) = Some (rc, dsk', lb', buf', s')
   \<Longrightarrow> keeps_ok s s'"
proof (induction "is" arbitrary: dsk lb buf s)
  case Nil
  then show ?case by (simp add: keeps_ok_refl)
next
  case (Cons i "is")
  from Cons.prems obtain d1 rs1 where
    av: "avoid_primary cfg (backupDisk (Globtag s tag lb)) (backupDisk (Globtag s tag bnum)) dsk
           (rand_values s) = Some (d1, rs1)"
    by (auto split: option.splits)
  from avoid_primary_result [OF av] have d1: "d1 \<noteq> backupDisk (Globtag s tag lb)"
    by simp
  define s1 where "s1 = s\<lparr>rand_values := rs1\<rparr>"
  show ?case
  proof (cases "diskPosition (Globtag s tag lb) = - 1")
    case True
    define s2 where "s2 = cache_put d1 (blocks (array s1 d1) + 1) (buf (ba + i)) s1"
    define r where "r = issue cfg net (request (RAID_WRITE cfg) 1 d1 (blocks (array s2 d1) + 1)) (ba + i) buf s2"
    define s3 where "s3 = snd (snd r)"
    have g3: "Globtag s3 = Globtag s" "maxtaglines s3 = maxtaglines s"
      by (simp_all add: s3_def r_def s2_def s1_def)
    show ?thesis
    proof (cases "fst r \<noteq> 0")
      case True
      with Cons.prems av \<open>diskPosition (Globtag s tag lb) = - 1\<close> have "s' = s3"
        by (auto simp add: Let_def split_def s3_def r_def s2_def s1_def)
      with g3 show ?thesis
        by (simp add: keeps_ok_same)
    next
      case False
      define s4 where "s4 = set_tag tag lb (\<lambda>e. e\<lparr>disk := d1\<rparr>) s3"
      define s5 where "s5 = set_disk d1 (\<lambda>a. a\<lparr>blocks := blocks a + 1\<rparr>) s4"
      define s6 where "s6 = set_tag tag lb (\<lambda>e. e\<lparr>diskPosition := blocks (array s5 d1)\<rparr>) s5"
      define s7 where "s7 = s6\<lparr>tagcounter := (tagcounter s6)(tag := tagcounter s6 tag + 1)\<rparr>"
      from False Cons.prems av \<open>diskPosition (Globtag s tag lb) = - 1\<close>
      have rec: "primary_rest cfg net tag bnum ba is (d1, lb + 1, fst (snd r), s7) =
          Some (rc, dsk', lb', buf', s')"
        by (simp add: Let_def split_def s7_def s6_def s5_def s4_def s3_def r_def s2_def s1_def)
      have "keeps_ok s s7"
        using d1 g3
        by (auto simp add: keeps_ok_def s7_def s6_def s5_def s4_def mirror_ok_def)
      with Cons.IH [OF rec] show ?thesis
        by (blast intro: keeps_ok_trans)
    qed
  next
    case False
    define r where "r = issue cfg net (request (RAID_WRITE cfg) 1 (disk (Globtag s tag lb))
        (diskPosition (Globtag s tag lb))) (ba + i) buf
        (cache_put (disk (Globtag s tag lb)) (diskPosition (Globtag s tag lb)) (buf (ba + i)) s1)"
    define s3 where "s3 = snd (snd r)"
    have g3: "Globtag s3 = Globtag s" "maxtaglines s3 = maxtaglines s"
      by (simp_all add: s3_def r_def s1_def)
    show ?thesis
    proof (cases "fst r \<noteq> 0")
      case True
      with Cons.prems av \<open>diskPosition (Globtag s tag lb) \<noteq> - 1\<close> have "s' = s3"
        by (auto simp add: Let_def split_def s3_def r_def s1_def)
      with g3 show ?thesis
        by (simp add: keeps_ok_same)
    next
      case nz: False
      from nz Cons.prems av \<open>diskPosition (Globtag s tag lb) \<noteq> - 1\<close>
      have rec: "primary_rest cfg net tag bnum ba is (d1, lb + 1, fst (snd r), s3) =
          Some (rc, dsk', lb', buf', s')"
        by (simp add: Let_def split_def s3_def r_def s1_def)
      from Cons.IH [OF rec] keeps_ok_same [OF g3] show ?thesis
        by (blast intro: keeps_ok_trans)
    qed
  qed
qed

lemma mirror_rest_ok:
  "mirror_rest cfg net tag bnum ba ba2 is (bdsk, lb, buf, s) = Some (rc, bdsk', lb', buf', s')
   \<Longrightarrow> keeps_ok s s'"
proof (induction "is" arbitrary: bdsk lb buf s)
  case Nil
  then show ?case by (simp add: keeps_ok_refl)
next
  case (Cons i "is")
  from Cons.prems obtain b1 rs1 where
    av: "avoid_mirror cfg (disk (Globtag s tag lb)) (disk (Globtag s tag bnum)) bdsk
           (rand_values s) = Some (b1, rs1)"
    by (auto split: option.splits)
  from avoid_mirror_result [OF av] have b1: "b1 \<noteq> disk (Globtag s tag lb)"
    by simp
  define s1 where "s1 = s\<lparr>rand_values := rs1\<rparr>"
  show ?case
  proof (cases "backupDiskPosition (Globtag s tag lb) = - 1")
    case True
    define s2 where "s2 = cache_put b1 (blocks (array s1 b1) + 1) (buf (ba + i)) s1"
    define r where "r = issue cfg net (request (RAID_WRITE cfg) 1 b1 (blocks (array s2 b1) + 1)) (ba2 + i) buf s2"
    define s3 where "s3 = snd (snd r)"
    have g3: "Globtag s3 = Globtag s" "maxtaglines s3 = maxtaglines s"
      by (simp_all add: s3_def r_def s2_def s1_def)
    show ?thesis
    proof (cases "fst r \<noteq> 0")
      case True
      with Cons.prems av \<open>backupDiskPosition (Globtag s tag lb) = - 1\<close> have "s' = s3"
        by (auto simp add: Let_def split_def s3_def r_def s2_def s1_def)
      with g3 show ?thesis
        by (simp add: keeps_ok_same)
    next
      case False
      define s4 where "s4 = set_tag tag lb (\<lambda>e. e\<lparr>backupDisk := b1\<rparr>) s3"
      define s5 where "s5 = set_disk b1 (\<lambda>a. a\<lparr>blocks := blocks a + 1\<rparr>) s4"
      define s6 where "s6 = set_tag tag lb (\<lambda>e. e\<lparr>backupDiskPosition := blocks (array s5 b1)\<rparr>) s5"
      from False Cons.prems av \<open>backupDiskPosition (Globtag s tag lb) = - 1\<close>
      have rec: "mirror_rest cfg net tag bnum ba ba2 is (b1, lb + 1, fst (snd r), s6) =
          Some (rc, bdsk', lb', buf', s')"
        by (simp add: Let_def split_def s6_def s5_def s4_def s3_def r_def s2_def s1_def)
      have "keeps_ok s s6"
        using b1 g3
        by (auto simp add: keeps_ok_def s6_def s5_def s4_def mirror_ok_def)
      with Cons.IH [OF rec] show ?thesis
        by (blast intro: keeps_ok_trans)
    qed
  next
    case False
    define r where "r = issue cfg net (request (RAID_WRITE cfg) 1 (backupDisk (Globtag s tag lb))
        (backupDiskPosition (Globtag s tag lb))) (ba2 + i) buf
        (cache_put (backupDisk (Globtag s tag lb)) (backupDiskPosition (Globtag s tag lb))
           (buf (ba + i)) s1)"
    define s3 where "s3 = snd (snd r)"
    have g3: "Globtag s3 = Globtag s" "maxtaglines s3 = maxtaglines s"
      by (simp_all add: s3_def r_def s1_def)
    show ?thesis
    proof (cases "fst r \<noteq> 0")
      case True
      with Cons.prems av \<open>backupDiskPosition (Globtag s tag lb) \<noteq> - 1\<close> have "s' = s3"
        by (auto simp add: Let_def split_def s3_def r_def s1_def)
      with g3 show ?thesis
        by (simp add: keeps_ok_same)
    next
      case nz: False
      from nz Cons.prems av \<open>backupDiskPosition (Globtag s tag lb) \<noteq> - 1\<close>
      have rec: "mirror_rest cfg net tag bnum ba ba2 is (b1, lb + 1, fst (snd r), s3) =
          Some (rc, bdsk', lb', buf', s')"
        by (simp add: Let_def split_def s3_def r_def s1_def)
      from Cons.IH [OF rec] keeps_ok_same [OF g3] show ?thesis
        by (blast intro: keeps_ok_trans)
    qed
  qed
qed

lemma record_append_ok:
  "dsk \<noteq> bdsk \<Longrightarrow> keeps_ok s (snd (record_append tag dsk bdsk is (lb, s)))"
proof (induction "is" arbitrary: lb s)
  case Nil
  then show ?case by (simp add: keeps_ok_refl)
next
  case (Cons i "is")
  define s1 where "s1 = set_tag tag lb (\<lambda>e. e\<lparr>disk := dsk\<rparr>) s"
  define s2 where "s2 = set_tag tag lb (\<lambda>e. e\<lparr>backupDisk := bdsk\<rparr>) s1"
  define s3 where "s3 = set_disk dsk (\<lambda>a. a\<lparr>blocks := blocks a + 1\<rparr>) s2"
  define s4 where "s4 = set_disk bdsk (\<lambda>a. a\<lparr>blocks := blocks a + 1\<rparr>) s3"
  define s5 where "s5 = set_tag tag lb (\<lambda>e. e\<lparr>diskPosition := blocks (array s4 dsk)\<rparr>) s4"
  define s6 where "s6 = set_tag tag lb (\<lambda>e. e\<lparr>backupDiskPosition := blocks (array s5 bdsk)\<rparr>) s5"
  have step: "record_append tag dsk bdsk (i # is) (lb, s) = record_append tag dsk bdsk is (lb + 1, s6)"
    by (simp add: Let_def s6_def s5_def s4_def s3_def s2_def s1_def)
  have "keeps_ok s s6"
    using Cons.prems
    by (auto simp add: keeps_ok_def s6_def s5_def s4_def s3_def s2_def s1_def mirror_ok_def)
  with Cons.IH [OF Cons.prems, of s6 "lb + 1"] show ?case
    unfolding step by (blast intro: keeps_ok_trans)
qed

lemma both_loop_result: "both_loop cfg d b rs = Some (d', b', rs') \<Longrightarrow> d' \<noteq> b'"
  by (induction cfg d b rs rule: both_loop.induct) (auto split: if_splits)

lemma and_then_ok:
  assumes "and_then m f = Some (rc, x')"
      and "\<And>rc0 x. m = Some (rc0, x) \<Longrightarrow> Q x"
      and "\<And>x rc1 x1. Q x \<Longrightarrow> f x = Some (rc1, x1) \<Longrightarrow> Q x1"
  shows "Q x'"
  using assms by (auto simp add: and_then_def split: option.splits if_splits)

lemma rewrite_primary_whole_ok:
  assumes "rewrite_primary_whole cfg net tag bnum blks ba (dsk, bdsk, buf, s) =
             Some (rc, dsk', bdsk', buf', s')"
  shows "keeps_ok s s'"
proof (cases "ba \<ge> blks")
  case False
  with assms show ?thesis
    by (simp add: rewrite_primary_whole_def keeps_ok_refl)
next
  case True
  define s1 where "s1 = put_primary tag bnum buf [0..<blks] s"
  define r where "r = issue cfg net (request (RAID_WRITE cfg) (int blks) (disk (Globtag s1 tag bnum))
      (diskPosition (Globtag s1 tag bnum))) 0 buf s1"
  from assms True have "s' = snd (snd r)"
    by (auto simp add: rewrite_primary_whole_def Let_def split_def r_def s1_def)
  then show ?thesis
    by (simp add: keeps_ok_same r_def s1_def)
qed

lemma rewrite_mirror_whole_ok:
  assumes "rewrite_mirror_whole cfg net tag bnum blks ba2 (dsk, bdsk, buf, s) =
             Some (rc, dsk', bdsk', buf', s')"
  shows "keeps_ok s s'"
proof (cases "ba2 \<ge> blks")
  case False
  with assms show ?thesis
    by (simp add: rewrite_mirror_whole_def keeps_ok_refl)
next
  case True
  define s1 where "s1 = put_mirror tag bnum buf [0..<blks] s"
  define r where "r = issue cfg net (request (RAID_WRITE cfg) (int blks) (backupDisk (Globtag s1 tag bnum))
      (backupDiskPosition (Globtag s1 tag bnum))) 0 buf s1"
  from assms True have "s' = snd (snd r)"
    by (auto simp add: rewrite_mirror_whole_def Let_def split_def r_def s1_def)
  then show ?thesis
    by (simp add: keeps_ok_same r_def s1_def)
qed

lemma rewrite_primary_split_ok:
  assumes "rewrite_primary_split cfg net tag bnum blks ba (dsk, bdsk, buf, s) =
             Some (rc, dsk', bdsk', buf', s')"
  shows "keeps_ok s s'"
proof (cases "ba < blks")
  case False
  with assms show ?thesis
    by (simp add: rewrite_primary_split_def keeps_ok_refl)
next
  case True
  define s1 where "s1 = put_primary tag bnum buf [0..<ba] s"
  define r where "r = issue cfg net (request (RAID_WRITE cfg) (int ba) (disk (Globtag s1 tag bnum))
      (diskPosition (Globtag s1 tag bnum))) 0 buf s1"
  have g: "keeps_ok s (snd (snd r))"
    by (simp add: keeps_ok_same r_def s1_def)
  show ?thesis
  proof (cases "fst r \<noteq> 0")
    case nz: True
    with assms True have "s' = snd (snd r)"
      by (auto simp add: rewrite_primary_split_def Let_def split_def r_def s1_def)
    with g show ?thesis by simp
  next
    case False
    with assms True obtain d2 lb2 where
      "primary_rest cfg net tag bnum ba [0..<blks - ba] (dsk, bnum + ba, fst (snd r), snd (snd r)) =
         Some (rc, d2, lb2, buf', s')"
      by (auto simp add: rewrite_primary_split_def Let_def split_def r_def s1_def
          split: option.splits)
    from primary_rest_ok [OF this] g show ?thesis
      by (blast intro: keeps_ok_trans)
  qed
qed

lemma rewrite_mirror_split_ok:
  assumes "rewrite_mirror_split cfg net tag bnum blks ba ba2 (dsk, bdsk, buf, s) =
             Some (rc, dsk', bdsk', buf', s')"
  shows "keeps_ok s s'"
proof (cases "ba2 < blks")
  case False
  with assms show ?thesis
    by (simp add: rewrite_mirror_split_def keeps_ok_refl)
next
  case True
  define s1 where "s1 = put_mirror tag bnum buf [0..<ba] s"
  define r where "r = issue cfg net (request (RAID_WRITE cfg) (int ba2) (backupDisk (Globtag s1 tag bnum))
      (backupDiskPosition (Globtag s1 tag bnum))) 0 buf s1"
  have g: "keeps_ok s (snd (snd r))"
    by (simp add: keeps_ok_same r_def s1_def)
  show ?thesis
  proof (cases "fst r \<noteq> 0")
    case nz: True
    with assms True have "s' = snd (snd r)"
      by (auto simp add: rewrite_mirror_split_def Let_def split_def r_def s1_def)
    with g show ?thesis by simp
  next
    case False
    with assms True obtain b2 lb2 where
      "mirror_rest cfg net tag bnum ba ba2 [0..<blks - ba2]
         (bdsk, bnum + ba2, fst (snd r), snd (snd r)) = Some (rc, b2, lb2, buf', s')"
      by (auto simp add: rewrite_mirror_split_def Let_def split_def r_def s1_def
          split: option.splits)
    from mirror_rest_ok [OF this] g show ?thesis
      by (blast intro: keeps_ok_trans)
  qed
qed

lemma append_blocks_ok:
  assumes "append_blocks cfg net tag bnum blks (dsk, bdsk, buf, s) = Some (rc, dsk', bdsk', buf', s')"
      and "dsk \<noteq> bdsk"
  shows "keeps_ok s s'"
proof -
  define s1 where "s1 = put_fresh dsk buf [0..<blks] s"
  define r where "r = issue cfg net (request (RAID_WRITE cfg) (int blks) dsk (blocks (array s1 dsk) + 1)) 0 buf s1"
  define s2 where "s2 = put_fresh bdsk (fst (snd r)) [0..<blks] (snd (snd r))"
  define r2 where "r2 = issue cfg net (request (RAID_WRITE cfg) (int blks) bdsk (blocks (array s2 bdsk) + 1)) 0
      (fst (snd r)) s2"
  define s3 where "s3 = (snd (snd r2))\<lparr>tagcounter := (tagcounter (snd (snd r2)))
      (tag := tagcounter (snd (snd r2)) tag + int blks)\<rparr>"
  have g1: "keeps_ok s (snd (snd r))"
    by (simp add: keeps_ok_same r_def s1_def)
  have g2: "keeps_ok s (snd (snd r2))"
    by (simp add: keeps_ok_same r2_def s2_def r_def s1_def)
  have g3: "keeps_ok s s3"
    by (simp add: keeps_ok_same s3_def r2_def s2_def r_def s1_def)
  consider (a) "fst r \<noteq> 0" | (b) "fst r = 0" "fst r2 \<noteq> 0" | (c) "fst r = 0" "fst r2 = 0"
    by blast
  then show ?thesis
  proof cases
    case a
    with assms(1) have "s' = snd (snd r)"
      by (auto simp add: append_blocks_def Let_def split_def r_def s1_def)
    with g1 show ?thesis by simp
  next
    case b
    with assms(1) have "s' = snd (snd r2)"
      by (auto simp add: append_blocks_def Let_def split_def r2_def s2_def r_def s1_def)
    with g2 show ?thesis by simp
  next
    case c
    with assms(1) have "s' = snd (record_append tag dsk bdsk [0..<blks] (bnum, s3))"
      by (auto simp add: append_blocks_def Let_def split_def s3_def r2_def s2_def r_def s1_def)
    with record_append_ok [OF assms(2), of s3 tag "[0..<blks]" bnum] g3 show ?thesis
      by (blast intro: keeps_ok_trans)
  qed
qed

lemma tagline_write_ok:
  assumes "tagline_write cfg net tag bnum blks buf s = Some (rc, buf', s')"
  shows "keeps_ok s s'"
proof -
  from assms obtain r1 r2 rs0 where rv: "rand_values s = r1 # r2 # rs0"
    by (auto simp add: tagline_write_def Let_def split: list.splits)
  from assms rv obtain dsk bdsk rs where
    ch: "chooseDisk cfg (Some (int (r1 mod RAID_DISKS cfg))) (Some (int (r2 mod RAID_DISKS cfg)))
           (int blks) rs0 = Some (Some dsk, Some bdsk, rs)"
    by (auto simp add: tagline_write_def Let_def split: option.splits)
  then have ne: "dsk \<noteq> bdsk"
    by (auto simp add: chooseDisk_def split: option.splits dest: both_loop_result)
  define s0 where "s0 = s\<lparr>rand_values := rs\<rparr>"
  have k0: "keeps_ok s s0"
    by (simp add: keeps_ok_same s0_def)
  define av where "av = (if int bnum < tagcounter s tag \<and> blks \<noteq> 1
      then available_loop (Globtag (s\<lparr>rand_values := rs\<rparr>) tag) bnum [0..<blks] (1, 1, bnum)
      else (1, 1, bnum))"
  define ba where "ba = fst av"
  define ba2 where "ba2 = fst (snd av)"
  define Q where "Q = (\<lambda>x :: 'a write_state. keeps_ok s (snd (snd (snd x))))"
  show ?thesis
  proof (cases "int bnum < tagcounter s tag")
    case False
    with assms rv ch obtain d' b' where
      "append_blocks cfg net tag bnum blks (dsk, bdsk, buf, s0) = Some (rc, d', b', buf', s')"
      by (auto simp add: tagline_write_def Let_def split_def s0_def split: option.splits)
    from append_blocks_ok [OF this ne] k0 show ?thesis
      by (blast intro: keeps_ok_trans)
  next
    case True
    with assms rv ch obtain d' b' where chain:
      "and_then (and_then (and_then
          (rewrite_primary_whole cfg net tag bnum blks ba (dsk, bdsk, buf, s0))
          (rewrite_mirror_whole cfg net tag bnum blks ba2))
          (rewrite_primary_split cfg net tag bnum blks ba))
          (rewrite_mirror_split cfg net tag bnum blks ba ba2) = Some (rc, d', b', buf', s')"
      unfolding s0_def av_def ba_def ba2_def
      by (auto simp add: tagline_write_def Let_def split_def split: option.splits)
    have step: "Q x1" if "Q x" and "f x = Some (rc1, x1)"
      and "\<And>d b bf t d' b' bf' t' rc. f (d, b, bf, t) = Some (rc, d', b', bf', t') \<Longrightarrow> keeps_ok t t'"
    for f :: "'a write_state \<Rightarrow> (int \<times> 'a write_state) option" and x x1 rc1
    proof -
      obtain d b bf t where x: "x = (d, b, bf, t)" by (cases x) auto
      obtain d' b' bf' t' where x1: "x1 = (d', b', bf', t')" by (cases x1) auto
      from that(3) [of d b bf t rc1 d' b' bf' t'] that(2) x x1 have "keeps_ok t t'" by simp
      with that(1) x x1 show ?thesis
        by (auto simp add: Q_def intro: keeps_ok_trans)
    qed
    have "Q (d', b', buf', s')"
    proof (rule and_then_ok [OF chain, of Q])
      fix rc0 x
      assume m3: "and_then (and_then
          (rewrite_primary_whole cfg net tag bnum blks ba (dsk, bdsk, buf, s0))
          (rewrite_mirror_whole cfg net tag bnum blks ba2))
          (rewrite_primary_split cfg net tag bnum blks ba) = Some (rc0, x)"
      show "Q x"
      proof (rule and_then_ok [OF m3, of Q])
        fix rc0 x
        assume m2: "and_then
          (rewrite_primary_whole cfg net tag bnum blks ba (dsk, bdsk, buf, s0))
          (rewrite_mirror_whole cfg net tag bnum blks ba2) = Some (rc0, x)"
        show "Q x"
        proof (rule and_then_ok [OF m2, of Q])
          fix rc0 x
          assume m1: "rewrite_primary_whole cfg net tag bnum blks ba (dsk, bdsk, buf, s0) = Some (rc0, x)"
          obtain d b bf t where x: "x = (d, b, bf, t)" by (cases x) auto
          from rewrite_primary_whole_ok [OF m1 [unfolded x]] k0 x show "Q x"
            by (auto simp add: Q_def intro: keeps_ok_trans)
        next
          fix x rc1 x1
          assume "Q x" "rewrite_mirror_whole cfg net tag bnum blks ba2 x = Some (rc1, x1)"
          then show "Q x1"
            by (rule step) (rule rewrite_mirror_whole_ok)
        qed
      next
        fix x rc1 x1
        assume "Q x" "rewrite_primary_split cfg net tag bnum blks ba x = Some (rc1, x1)"
        then show "Q x1"
          by (rule step) (rule rewrite_primary_split_ok)
      qed
    next
      fix x rc1 x1
      assume "Q x" "rewrite_mirror_split cfg net tag bnum blks ba ba2 x = Some (rc1, x1)"
      then show "Q x1"
        by (rule step) (rule rewrite_mirror_split_ok)
    qed
    then show ?thesis
      by (simp add: Q_def)
  qed
qed

lemma get_in_driver_frame [simp]:
  "Globtag (s\<lparr>cache_vars := c\<rparr>) = Globtag s"
  "array (s\<lparr>cache_vars := c\<rparr>) = array s"
  by simp_all

lemma read_loop_frame:
  "Globtag (snd (snd (snd (read_loop cfg net tag bnum is (op, r, buf, s))))) = Globtag s \<and>
   maxtaglines (snd (snd (snd (read_loop cfg net tag bnum is (op, r, buf, s))))) = maxtaglines s \<and>
   array (snd (snd (snd (read_loop cfg net tag bnum is (op, r, buf, s))))) = array s \<and>
   tagcounter (snd (snd (snd (read_loop cfg net tag bnum is (op, r, buf, s))))) = tagcounter s"
proof (induction "is" arbitrary: op r buf s)
  case Nil
  then show ?case by simp
next
  case (Cons i "is")
  show ?case
  proof (cases "fst (get_raid_cache (word_of_int (disk (Globtag s tag (bnum + i))))
      (word_of_int (diskPosition (Globtag s tag (bnum + i)))) (cache_vars s))")
    case None
    then show ?thesis
      by (simp add: Let_def split_def Cons.IH)
  next
    case (Some k)
    then show ?thesis
      by (simp add: Let_def split_def Cons.IH)
  qed
qed

lemma tagline_read_frame:
  "Globtag (snd (snd (tagline_read cfg net tag bnum blks buf s))) = Globtag s"
  "maxtaglines (snd (snd (tagline_read cfg net tag bnum blks buf s))) = maxtaglines s"
  "array (snd (snd (tagline_read cfg net tag bnum blks buf s))) = array s"
  "tagcounter (snd (snd (tagline_read cfg net tag bnum blks buf s))) = tagcounter s"
  by (simp_all add: tagline_read_def Let_def split_def read_loop_frame)

lemma recover_entry_frame:
  "Globtag (snd (snd (snd (snd (recover_entry cfg net dsk i j (op, r, tb, s)))))) = Globtag s \<and>
   maxtaglines (snd (snd (snd (snd (recover_entry cfg net dsk i j (op, r, tb, s)))))) = maxtaglines s \<and>
   array (snd (snd (snd (snd (recover_entry cfg net dsk i j (op, r, tb, s)))))) = array s \<and>
   tagcounter (snd (snd (snd (snd (recover_entry cfg net dsk i j (op, r, tb, s)))))) = tagcounter s"
  by (simp add: recover_entry_def Let_def split_def split: option.splits)

lemma recover_row_frame:
  "Globtag (snd (snd (snd (snd (recover_row cfg net dsk i js (op, r, tb, s)))))) = Globtag s \<and>
   maxtaglines (snd (snd (snd (snd (recover_row cfg net dsk i js (op, r, tb, s)))))) = maxtaglines s \<and>
   array (snd (snd (snd (snd (recover_row cfg net dsk i js (op, r, tb, s)))))) = array s \<and>
   tagcounter (snd (snd (snd (snd (recover_row cfg net dsk i js (op, r, tb, s)))))) = tagcounter s"
proof (induction js arbitrary: op r tb s)
  case Nil
  then show ?case by simp
next
  case (Cons j js)
  obtain rc op' r' tb' s' where e: "recover_entry cfg net dsk i j (op, r, tb, s) = (rc, op', r', tb', s')"
    by (cases "recover_entry cfg net dsk i j (op, r, tb, s)") auto
  with recover_entry_frame [of cfg net dsk i j op r tb s]
  have "Globtag s' = Globtag s" "maxtaglines s' = maxtaglines s" "array s' = array s"
    "tagcounter s' = tagcounter s"
    by simp_all
  with e Cons.IH [of op' r' tb' s'] show ?case
    by simp
qed

lemma recover_rows_frame:
  "Globtag (snd (snd (snd (snd (recover_rows cfg net dsk is (op, r, tb, s)))))) = Globtag s \<and>
   maxtaglines (snd (snd (snd (snd (recover_rows cfg net dsk is (op, r, tb, s)))))) = maxtaglines s \<and>
   array (snd (snd (snd (snd (recover_rows cfg net dsk is (op, r, tb, s)))))) = array s \<and>
   tagcounter (snd (snd (snd (snd (recover_rows cfg net dsk is (op, r, tb, s)))))) = tagcounter s"
proof (induction "is" arbitrary: op r tb s)
  case Nil
  then show ?case by simp
next
  case (Cons i "is")
  obtain rc op' r' tb' s' where e:
    "recover_row cfg net dsk i [0..<nat (tagcounter s i)] (op, r, tb, s) = (rc, op', r', tb', s')"
    by (cases "recover_row cfg net dsk i [0..<nat (tagcounter s i)] (op, r, tb, s)") auto
  with recover_row_frame [of cfg net dsk i "[0..<nat (tagcounter s i)]" op r tb s]
  have "Globtag s' = Globtag s" "maxtaglines s' = maxtaglines s" "array s' = array s"
    "tagcounter s' = tagcounter s"
    by simp_all
  with e Cons.IH [of op' r' tb' s'] show ?case
    by simp
qed

lemma raid_disk_recover_frame:
  "Globtag (snd (raid_disk_recover cfg net zero dsk s)) = Globtag s"
  "maxtaglines (snd (raid_disk_recover cfg net zero dsk s)) = maxtaglines s"
  "tagcounter (snd (raid_disk_recover cfg net zero dsk s)) = tagcounter s"
  "blocks (array (snd (raid_disk_recover cfg net zero dsk s)) d) = blocks (array s d)"
proof -
  define r where "r = bus cfg net (request (RAID_FORMAT cfg) 0 (uint dsk) 0) 0 (\<lambda>k. []) s"
  define c where "c = check_response cfg (fst r) (request (RAID_FORMAT cfg) 0 (uint dsk) 0) (snd (snd r))"
  define rr where "rr = recover_rows cfg net dsk [0..<maxtaglines (snd c)]
      (request (RAID_FORMAT cfg) 0 (uint dsk) 0, fst r, (\<lambda>k. zero), snd c)"
  have c: "Globtag (snd c) = Globtag s" "maxtaglines (snd c) = maxtaglines s"
    "array (snd c) = array s" "tagcounter (snd c) = tagcounter s"
    by (simp_all add: c_def r_def)
  have rr: "Globtag (snd (snd (snd (snd rr)))) = Globtag s"
    "maxtaglines (snd (snd (snd (snd rr)))) = maxtaglines s"
    "array (snd (snd (snd (snd rr)))) = array s"
    "tagcounter (snd (snd (snd (snd rr)))) = tagcounter s"
    using recover_rows_frame [of cfg net dsk "[0..<maxtaglines (snd c)]"
        "request (RAID_FORMAT cfg) 0 (uint dsk) 0" "fst r" "\<lambda>k. zero" "snd c"] c
    by (simp_all add: rr_def)
  have eq: "raid_disk_recover cfg net zero dsk s =
     (if fst c \<noteq> 0 then (1, snd c)
      else if fst rr \<noteq> 0 then (1, snd (snd (snd (snd rr))))
      else (0, set_disk (uint dsk) (\<lambda>a. a\<lparr>status := RAID_DISK_READY cfg\<rparr>) (snd (snd (snd (snd rr))))))"
    by (simp add: raid_disk_recover_def Let_def split_def rr_def c_def r_def)
  show "Globtag (snd (raid_disk_recover cfg net zero dsk s)) = Globtag s"
    "maxtaglines (snd (raid_disk_recover cfg net zero dsk s)) = maxtaglines s"
    "tagcounter (snd (raid_disk_recover cfg net zero dsk s)) = tagcounter s"
    "blocks (array (snd (raid_disk_recover cfg net zero dsk s)) d) = blocks (array s d)"
    unfolding eq using c rr by simp_all
qed

lemma signal_loop_frame:
  "Globtag (snd (signal_loop cfg net zero ds s)) = Globtag s \<and>
   maxtaglines (snd (signal_loop cfg net zero ds s)) = maxtaglines s"
proof (induction ds arbitrary: s)
  case Nil
  then show ?case by simp
next
  case (Cons d ds)
  define r where "r = bus cfg net (request (RAID_STATUS cfg) 0 (int d) 0) 0 (\<lambda>k. []) s"
  define c where "c = check_response cfg (fst r) (request (RAID_STATUS cfg) 0 (int d) 0) (snd (snd r))"
  define s2 where "s2 = snd (raid_disk_recover cfg net zero (of_nat d)
      (set_disk (int d) (\<lambda>a. a\<lparr>status := RAID_DISK_FAILED cfg\<rparr>) (snd c)))"
  have c: "Globtag (snd c) = Globtag s" "maxtaglines (snd c) = maxtaglines s"
    by (simp_all add: c_def r_def)
  have s2: "Globtag s2 = Globtag s" "maxtaglines s2 = maxtaglines s"
    by (simp_all add: s2_def raid_disk_recover_frame c)
  have eq: "signal_loop cfg net zero (d # ds) s =
     (if fst c \<noteq> 0 then (1, snd c)
      else if r_id (GlobResponse (snd c)) = word_of_int (RAID_DISK_FAILED cfg)
      then signal_loop cfg net zero ds s2
      else signal_loop cfg net zero ds (snd c))"
    by (simp add: Let_def split_def s2_def c_def r_def)
  show ?case
    unfolding eq using c s2 Cons.IH by simp
qed

lemma raid_disk_signal_frame:
  "raid_disk_signal cfg net zero s = Some (rc, s') \<Longrightarrow>
   Globtag s' = Globtag s \<and> maxtaglines s' = maxtaglines s"
  using signal_loop_frame [of cfg net zero "[0..<RAID_DISKS cfg]" s]
  by (auto simp add: raid_disk_signal_def split: if_splits)

lemma format_loop_frame:
  "Globtag (snd (format_loop cfg net ds s)) = Globtag s \<and>
   maxtaglines (snd (format_loop cfg net ds s)) = maxtaglines s \<and>
   tagcounter (snd (format_loop cfg net ds s)) = tagcounter s"
proof (induction ds arbitrary: s)
  case Nil
  then show ?case by simp
next
  case (Cons d ds)
  then show ?case
    by (simp add: Let_def split_def)
qed

lemma tagline_driver_init_table:
  "maxtaglines (snd (tagline_driver_init cfg net maxlines fresh s)) = maxlines"
  "i < maxlines \<Longrightarrow> j < MAX_TAGLINE_BLOCK_NUMBER cfg \<Longrightarrow>
     Globtag (snd (tagline_driver_init cfg net maxlines fresh s)) i j = unassigned"
  "i < maxlines \<Longrightarrow> tagcounter (snd (tagline_driver_init cfg net maxlines fresh s)) i = 0"
  by (simp_all add: tagline_driver_init_def Let_def split_def format_loop_frame)


text \<open>
  C2.  In every reachable driver state, every entry of the table (tagline below
  \<^verbatim>\<open>maxtaglines\<close>, block below \<^verbatim>\<open>MAX_TAGLINE_BLOCK_NUMBER\<close>) that has a disk assigned on
  either side has its primary disk different from its backup disk.
\<close>

lemma reachable_mirror_ok:
  assumes "reachable cfg net s"
  shows "\<forall>tag < maxtaglines s. \<forall>j < MAX_TAGLINE_BLOCK_NUMBER cfg. mirror_ok (Globtag s tag j)"
  using assms
proof (induction rule: reachable.induct)
  case (after_init maxlines fresh s0)
  then show ?case
    by (simp add: tagline_driver_init_table mirror_ok_def unassigned_def)
next
  case (after_write s tag bnum blks buf rc buf' s')
  from tagline_write_ok [OF after_write.hyps(2)] after_write.IH show ?case
    by (simp add: keeps_ok_def)
next
  case (after_read s tag bnum blks buf)
  then show ?case
    by (simp add: tagline_read_frame)
next
  case (after_signal s zero rc s')
  from raid_disk_signal_frame [OF after_signal.hyps(2)] after_signal.IH show ?case
    by simp
next
  case (array_event s srv)
  then show ?case by simp
next
  case (random_supply s rs)
  then show ?case by simp
qed

theorem mirror_integrity:
  assumes "reachable cfg net s"
      and "tag < maxtaglines s" and "j < MAX_TAGLINE_BLOCK_NUMBER cfg"
      and "disk (Globtag s tag j) \<noteq> - 1 \<or> backupDisk (Globtag s tag j) \<noteq> - 1"
  shows "disk (Globtag s tag j) \<noteq> backupDisk (Globtag s tag j)"
  using reachable_mirror_ok [OF assms(1)] assms(2-4)
  by (auto simp add: mirror_ok_def)

section \<open>Writing and reading back\<close>

subsection \<open>Requests on the wire\<close>

lemma request_blocks: "unat (drop_bit 56 (push_bit 8 (create_raid_request t q d i))) = unat q"
proof -
  have "drop_bit 56 (push_bit 8 (create_raid_request t q d i)) = (ucast q :: 64 word)"
    unfolding create_raid_request_def Let_def
    by (rule bit_word_eqI) (auto simp add: bit_simps dest: bit_imp_le_length)
  moreover have "unat q < 2 ^ 8" using unsigned_less [of q] by simp
  ultimately show ?thesis
    by (simp add: unsigned_ucast_eq take_bit_nat_eq_self_iff)
qed

lemma uint_byte: "0 \<le> x \<Longrightarrow> x < 256 \<Longrightarrow> uint (word_of_int x :: 8 word) = x"
  by (simp add: uint_word_of_int take_bit_int_eq_self)

lemma not_minus_one:
  assumes "0 \<le> x" "x < 2 ^ 31"
  shows "(word_of_int x :: 32 word) \<noteq> - 1"
proof
  assume "(word_of_int x :: 32 word) = - 1"
  then have "uint (word_of_int x :: 32 word) = uint (- 1 :: 32 word)" by (rule arg_cong)
  with assms have "x = mask 32"
    by (simp add: uint_word_of_int take_bit_int_eq_self unsigned_minus_1_eq_mask)
  with assms show False by (simp add: mask_eq_exp_minus_1)
qed

lemma zero_request: "create_raid_request 0 0 0 0 = 0"
  by (simp add: create_raid_request_def)

lemma fold_store_cong:
  "(\<And>i. i < n \<Longrightarrow> f i = g i) \<Longrightarrow>
   fold (\<lambda>i st. st((d, b + of_nat i) := f i)) [0..<n] srv =
   fold (\<lambda>i st. st((d, b + of_nat i) := g i)) [0..<n] srv"
  by (rule fold_cong) auto

lemma bus_write_ideal:
  assumes "0 \<le> RAID_WRITE cfg" "RAID_WRITE cfg < 256" "n < 256"
  shows "bus cfg (ideal_array cfg) (request (RAID_WRITE cfg) (int n) d pos) 0 buf s =
     (request (RAID_WRITE cfg) (int n) d pos, buf,
      s\<lparr>remote := fold (\<lambda>i st. st((word_of_int d, word_of_int pos + of_nat i) := buf i)) [0..<n]
                    (remote s)\<rparr>)"
proof -
  have n: "unat (word_of_nat n :: 8 word) = n"
    using assms(3) by (simp add: unat_of_nat)
  have f: "fold (\<lambda>i st. st((word_of_int d, word_of_int pos + of_nat i) := if i < n then buf i else [])) [0..<n] (remote s) =
           fold (\<lambda>i st. st((word_of_int d :: 8 word, (word_of_int pos :: 32 word) + of_nat i) := buf i)) [0..<n] (remote s)"
    by (rule fold_store_cong) simp
  have b: "(\<lambda>j. if j < n then if j < n then buf j else [] else buf j) = buf"
    by auto
  show ?thesis
    using assms(1,2)
    by (simp add: bus_def client_raid_bus_request_def ideal_array_def request_def Let_def
        request_fields request_disk_raw request_blocks uint_byte n f b cong: if_cong)
qed

lemma bus_read_ideal:
  assumes "0 \<le> RAID_READ cfg" "RAID_READ cfg < 256" "RAID_READ cfg \<noteq> RAID_WRITE cfg"
  shows "bus cfg (ideal_array cfg) (request (RAID_READ cfg) 1 d pos) i buf s =
     (request (RAID_READ cfg) 1 d pos, buf(i := remote s (word_of_int d, word_of_int pos)), s)"
proof -
  have b: "(\<lambda>j. if i \<le> j \<and> j < Suc i then remote s (word_of_int d, word_of_int pos + (of_nat j - of_nat i)) else buf j) =
      buf(i := remote s (word_of_int d :: 8 word, word_of_int pos :: 32 word))"
    by (auto simp add: fun_eq_iff le_less_Suc_eq)
  show ?thesis
    using assms
    by (simp add: bus_def client_raid_bus_request_def ideal_array_def request_def Let_def
        request_fields request_disk_raw request_blocks uint_byte b cong: if_cong)
qed

lemma issue_write_ideal:
  assumes "0 \<le> RAID_WRITE cfg" "RAID_WRITE cfg < 256" "n < 256"
  shows "fst (issue cfg (ideal_array cfg) (request (RAID_WRITE cfg) (int n) d pos) 0 buf s) = 0"
    and "fst (snd (issue cfg (ideal_array cfg) (request (RAID_WRITE cfg) (int n) d pos) 0 buf s)) = buf"
    and "remote (snd (snd (issue cfg (ideal_array cfg) (request (RAID_WRITE cfg) (int n) d pos) 0 buf s))) =
      fold (\<lambda>i st. st((word_of_int d, word_of_int pos + of_nat i) := buf i)) [0..<n] (remote s)"
  by (simp_all add: issue_def bus_write_ideal [OF assms] check_response_def)
     (simp_all add: request_def extract_echo)

lemma fold_store_other:
  "k \<notin> (\<lambda>i. (d, b + of_nat i)) ` set is \<Longrightarrow>
   fold (\<lambda>i st. st((d, b + of_nat i) := f i)) is st k = st k"
  by (induction "is" arbitrary: st) auto

lemma fold_store_at:
  fixes b :: "32 word"
  assumes "i < n" "n \<le> 2 ^ 32"
  shows "fold (\<lambda>i st. st((d, b + of_nat i) := f i)) [0..<n] st (d, b + of_nat i) = f i"
  using assms
proof (induction n arbitrary: i)
  case 0
  then show ?case by simp
next
  case (Suc n)
  show ?case
  proof (cases "i = n")
    case True
    then show ?thesis by simp
  next
    case False
    with Suc.prems have i: "i < n" by simp
    have "(of_nat i :: 32 word) \<noteq> of_nat n"
      using i Suc.prems(2) by (simp add: word_of_nat_eq_iff take_bit_nat_eq_self)
    with Suc.IH [OF i] Suc.prems(2) show ?thesis by simp
  qed
qed

subsection \<open>Keys, cache contents and the table after an append\<close>

lemma slot_key_inj:
  assumes "0 \<le> p" "p < 2 ^ 31" "0 \<le> q" "q < 2 ^ 31"
  shows "slot_key d p = slot_key d q \<longleftrightarrow> p = q"
proof -
  have "(word_of_int p :: 32 word) = word_of_int q \<longleftrightarrow> p = q"
    using assms by (intro word_of_int_inj) simp_all
  then show ?thesis by (simp add: slot_key_def)
qed

lemma slot_key_disk:
  assumes "0 \<le> d" "d < 256" "0 \<le> e" "e < 256" "d \<noteq> e"
  shows "slot_key d p \<noteq> slot_key e q"
proof -
  have "(word_of_int d :: 8 word) = word_of_int e \<longleftrightarrow> d = e"
    using assms by (intro word_of_int_inj) simp_all
  with assms(5) show ?thesis by (simp add: slot_key_def)
qed

lemma slot_key_real:
  assumes "0 \<le> p" "p < 2 ^ 31"
  shows "slot_key d p \<noteq> sentinel"
  using not_minus_one [OF assms] by (simp add: slot_key_def sentinel_def)

lemma cache_put_wf:
  "cache_wf fresh (cache_vars s) \<Longrightarrow> cache_wf fresh (cache_vars (cache_put d p b s))"
  by (simp add: cache_put_def cache_wf_put)

lemma cache_put_max [simp]:
  "glob_max_items (cache_vars (cache_put d p b s)) = glob_max_items (cache_vars s)"
  by (simp add: cache_put_def)

lemma cache_put_same:
  assumes "cache_wf fresh (cache_vars s)" "0 < glob_max_items (cache_vars s)"
  shows "cached (cache_vars (cache_put d p b s)) (slot_key d p) b"
  using put_same [OF assms] by (simp add: cache_put_def slot_key_def)

lemma cache_put_other:
  assumes "cache_wf fresh (cache_vars s)" "0 < glob_max_items (cache_vars s)"
      and "k \<noteq> slot_key d p" "k \<noteq> sentinel" "cached (cache_vars s) k v"
  shows "cached (cache_vars (cache_put d p b s)) k v"
  using put_other [OF assms(1,2) _ assms(4,5), of "word_of_int d" "word_of_int p" b] assms(3)
  by (simp add: cache_put_def slot_key_def)

lemma put_fresh_wf:
  "cache_wf fresh (cache_vars s) \<Longrightarrow> cache_wf fresh (cache_vars (put_fresh d buf is s))"
  by (induction "is" arbitrary: s) (simp_all add: cache_put_wf)

lemma put_fresh_max [simp]:
  "glob_max_items (cache_vars (put_fresh d buf is s)) = glob_max_items (cache_vars s)"
  by (induction "is" arbitrary: s) simp_all

lemma put_fresh_other:
  assumes "cache_wf fresh (cache_vars s)" "0 < glob_max_items (cache_vars s)"
      and "\<forall>i \<in> set is. k \<noteq> slot_key d (blocks (array s d) + 1 + int i)"
      and "k \<noteq> sentinel" "cached (cache_vars s) k v"
  shows "cached (cache_vars (put_fresh d buf is s)) k v"
  using assms
proof (induction "is" arbitrary: s)
  case Nil
  then show ?case by simp
next
  case (Cons i "is")
  let ?s = "cache_put d (blocks (array s d) + 1 + int i) (buf i) s"
  have "cached (cache_vars (put_fresh d buf is ?s)) k v"
  proof (rule Cons.IH)
    show "cache_wf fresh (cache_vars ?s)" using Cons.prems(1) by (rule cache_put_wf)
    show "0 < glob_max_items (cache_vars ?s)" using Cons.prems(2) by simp
    show "\<forall>i \<in> set is. k \<noteq> slot_key d (blocks (array ?s d) + 1 + int i)"
      using Cons.prems(3) by simp
    show "k \<noteq> sentinel" by (rule Cons.prems(4))
    show "cached (cache_vars ?s) k v"
      using Cons.prems by (intro cache_put_other) simp_all
  qed
  then show ?case by simp
qed

lemma put_fresh_cached:
  assumes "cache_wf fresh (cache_vars s)" "0 < glob_max_items (cache_vars s)"
      and "0 \<le> blocks (array s d) + 1" "\<forall>i \<in> set is. blocks (array s d) + 1 + int i < 2 ^ 31"
      and "distinct is" "i \<in> set is"
  shows "cached (cache_vars (put_fresh d buf is s)) (slot_key d (blocks (array s d) + 1 + int i)) (buf i)"
  using assms
proof (induction "is" arbitrary: s)
  case Nil
  then show ?case by simp
next
  case (Cons j "is")
  let ?s = "cache_put d (blocks (array s d) + 1 + int j) (buf j) s"
  have wf: "cache_wf fresh (cache_vars ?s)" using Cons.prems(1) by (rule cache_put_wf)
  have pos: "0 < glob_max_items (cache_vars ?s)" using Cons.prems(2) by simp
  show ?case
  proof (cases "i = j")
    case True
    have "cached (cache_vars (put_fresh d buf is ?s)) (slot_key d (blocks (array s d) + 1 + int j)) (buf j)"
    proof (rule put_fresh_other [OF wf pos])
      show "\<forall>i \<in> set is. slot_key d (blocks (array s d) + 1 + int j) \<noteq>
              slot_key d (blocks (array ?s d) + 1 + int i)"
        using Cons.prems(3,4,5) by (auto simp add: slot_key_inj)
      show "slot_key d (blocks (array s d) + 1 + int j) \<noteq> sentinel"
        using Cons.prems(3,4) by (intro slot_key_real) simp_all
      show "cached (cache_vars ?s) (slot_key d (blocks (array s d) + 1 + int j)) (buf j)"
        using Cons.prems(1,2) by (rule cache_put_same)
    qed
    with True show ?thesis by simp
  next
    case False
    with Cons.prems have "i \<in> set is" by simp
    with Cons.prems wf pos
    have "cached (cache_vars (put_fresh d buf is ?s))
            (slot_key d (blocks (array ?s d) + 1 + int i)) (buf i)"
      by (intro Cons.IH) simp_all
    then show ?thesis by simp
  qed
qed

lemma record_append_frame [simp]:
  "cache_vars (snd (record_append tag dsk bdsk is (l, s))) = cache_vars s"
  "remote (snd (record_append tag dsk bdsk is (l, s))) = remote s"
  "rand_values (snd (record_append tag dsk bdsk is (l, s))) = rand_values s"
  "maxtaglines (snd (record_append tag dsk bdsk is (l, s))) = maxtaglines s"
  by (induction "is" arbitrary: l s; simp add: Let_def)+

lemma record_append_below:
  "j < l \<Longrightarrow> Globtag (snd (record_append tag dsk bdsk is (l, s))) tag j = Globtag s tag j"
  by (induction "is" arbitrary: l s) (simp_all add: Let_def)

lemma record_append_table:
  assumes "dsk \<noteq> bdsk" "k < length is"
  shows "disk (Globtag (snd (record_append tag dsk bdsk is (l, s))) tag (l + k)) = dsk \<and>
         diskPosition (Globtag (snd (record_append tag dsk bdsk is (l, s))) tag (l + k)) =
           blocks (array s dsk) + 1 + int k"
  using assms(2)
proof (induction "is" arbitrary: l s k)
  case Nil
  then show ?case by simp
next
  case (Cons i "is")
  define s1 where "s1 = set_tag tag l (\<lambda>e. e\<lparr>disk := dsk\<rparr>) s"
  define s2 where "s2 = set_tag tag l (\<lambda>e. e\<lparr>backupDisk := bdsk\<rparr>) s1"
  define s3 where "s3 = set_disk dsk (\<lambda>a. a\<lparr>blocks := blocks a + 1\<rparr>) s2"
  define s4 where "s4 = set_disk bdsk (\<lambda>a. a\<lparr>blocks := blocks a + 1\<rparr>) s3"
  define s5 where "s5 = set_tag tag l (\<lambda>e. e\<lparr>diskPosition := blocks (array s4 dsk)\<rparr>) s4"
  define s6 where "s6 = set_tag tag l (\<lambda>e. e\<lparr>backupDiskPosition := blocks (array s5 bdsk)\<rparr>) s5"
  have step: "record_append tag dsk bdsk (i # is) (l, s) = record_append tag dsk bdsk is (l + 1, s6)"
    by (simp add: Let_def s1_def s2_def s3_def s4_def s5_def s6_def)
  have cur: "blocks (array s6 dsk) = blocks (array s dsk) + 1"
    using assms(1) by (simp add: s1_def s2_def s3_def s4_def s5_def s6_def)
  have ent: "disk (Globtag s6 tag l) = dsk" "diskPosition (Globtag s6 tag l) = blocks (array s dsk) + 1"
    using assms(1) by (simp_all add: s1_def s2_def s3_def s4_def s5_def s6_def)
  show ?case
  proof (cases k)
    case 0
    with ent show ?thesis
      unfolding step by (simp add: record_append_below)
  next
    case (Suc k')
    with Cons.prems have "k' < length is" by simp
    from Cons.IH [OF this, of "l + 1" s6] cur Suc show ?thesis
      unfolding step by simp
  qed
qed

subsection \<open>The read loop against the ideal array\<close>

lemma echoed_zero: "echoed 0 0"
  unfolding echoed_def using zero_request [symmetric] by blast

lemma echoed_request: "echoed (request t q d i) (request t q d i)"
  unfolding echoed_def request_def by blast

lemma echoed_check: "echoed operation response \<Longrightarrow> fst (check_response cfg response operation s) = 0"
  by (auto simp add: echoed_def check_response_def extract_echo)

lemma read_loop_hit:
  assumes "fst (get_raid_cache (word_of_int (disk (Globtag s tag (bnum + i))))
                  (word_of_int (diskPosition (Globtag s tag (bnum + i)))) (cache_vars s)) = Some k"
  shows "read_loop cfg net tag bnum (i # is) (operation, response, buf, s) =
     read_loop cfg net tag bnum is
       (operation, response,
        buf(i := c_data (cacheArray (snd (get_raid_cache (word_of_int (disk (Globtag s tag (bnum + i))))
                  (word_of_int (diskPosition (Globtag s tag (bnum + i)))) (cache_vars s))) ! k)),
        s\<lparr>cache_vars := snd (get_raid_cache (word_of_int (disk (Globtag s tag (bnum + i))))
                  (word_of_int (diskPosition (Globtag s tag (bnum + i)))) (cache_vars s))\<rparr>)"
  using assms by (simp add: split_def Let_def)

lemma read_loop_miss:
  assumes "fst (get_raid_cache (word_of_int (disk (Globtag s tag (bnum + i))))
                  (word_of_int (diskPosition (Globtag s tag (bnum + i)))) (cache_vars s)) = None"
      and "s1 = s\<lparr>cache_vars := snd (get_raid_cache (word_of_int (disk (Globtag s tag (bnum + i))))
                  (word_of_int (diskPosition (Globtag s tag (bnum + i)))) (cache_vars s))\<rparr>"
      and "op = request (RAID_READ cfg) 1 (disk (Globtag s tag (bnum + i)))
                  (diskPosition (Globtag s tag (bnum + i)))"
      and "bus cfg net op i buf s1 = (resp, buf', s2)"
  shows "read_loop cfg net tag bnum (i # is) (operation, response, buf, s) =
     read_loop cfg net tag bnum is
       (op, resp, buf',
        cache_put (disk (Globtag s tag (bnum + i))) (diskPosition (Globtag s tag (bnum + i))) (buf' i) s2)"
  using assms(1) assms(4) [unfolded assms(2,3)] unfolding assms(2,3)
  by (simp add: split_def Let_def)

lemma read_loop_ideal:
  assumes cfg: "config_ok cfg"
      and wf: "cache_wf fresh (cache_vars s)" and pos: "0 < glob_max_items (cache_vars s)"
      and tab: "\<forall>i \<in> set is. disk (Globtag s tag (bnum + i)) = d \<and>
                  diskPosition (Globtag s tag (bnum + i)) = p + int i"
      and lo: "0 \<le> p" and hi: "\<forall>i \<in> set is. p + int i < 2 ^ 31"
      and c: "\<forall>i \<in> set is. cached (cache_vars s) (slot_key d (p + int i)) (D i)"
      and r: "\<forall>i \<in> set is. remote s (slot_key d (p + int i)) = D i"
      and e: "echoed operation response"
  shows "echoed (fst (read_loop cfg (ideal_array cfg) tag bnum is (operation, response, buf, s)))
           (fst (snd (read_loop cfg (ideal_array cfg) tag bnum is (operation, response, buf, s)))) \<and>
         (\<forall>i \<in> set is.
            fst (snd (snd (read_loop cfg (ideal_array cfg) tag bnum is (operation, response, buf, s)))) i = D i) \<and>
         (\<forall>j. j \<notin> set is \<longrightarrow>
            fst (snd (snd (read_loop cfg (ideal_array cfg) tag bnum is (operation, response, buf, s)))) j = buf j)"
  using wf pos tab hi c r e
proof (induction "is" arbitrary: operation response buf s)
  case Nil
  then show ?case by simp
next
  case (Cons i "is")
  let ?net = "ideal_array cfg"
  define k where "k = slot_key d (p + int i)"
  have ei: "disk (Globtag s tag (bnum + i)) = d" "diskPosition (Globtag s tag (bnum + i)) = p + int i"
    using Cons.prems(3) by simp_all
  define g where "g = get_raid_cache (word_of_int d) (word_of_int (p + int i)) (cache_vars s)"
  define s1 where "s1 = s\<lparr>cache_vars := snd g\<rparr>"
  have wf1: "cache_wf fresh (cache_vars s1)"
    using Cons.prems(1) by (simp add: s1_def g_def cache_wf_get)
  have pos1: "0 < glob_max_items (cache_vars s1)"
    using Cons.prems(2) by (simp add: s1_def g_def)
  have c1: "\<forall>j \<in> set (i # is). cached (cache_vars s1) (slot_key d (p + int j)) (D j)"
    using Cons.prems(5) by (simp add: s1_def g_def get_cached)
  have rcfg: "0 \<le> RAID_READ cfg" "RAID_READ cfg < 256" "RAID_READ cfg \<noteq> RAID_WRITE cfg"
    using cfg by (simp_all add: config_ok_def)
  show ?case
  proof (cases "fst g")
    case (Some m)
    have dm: "c_data (cacheArray (snd g) ! m) = D i"
      unfolding g_def
    proof (rule get_hit)
      show "fst (get_raid_cache (word_of_int d) (word_of_int (p + int i)) (cache_vars s)) = Some m"
        using Some by (simp add: g_def)
      show "cached (cache_vars s) (word_of_int d, word_of_int (p + int i)) (D i)"
        using Cons.prems(5) by (simp add: slot_key_def)
    qed
    have step: "read_loop cfg ?net tag bnum (i # is) (operation, response, buf, s) =
        read_loop cfg ?net tag bnum is (operation, response, buf(i := D i), s1)"
      using read_loop_hit [of s tag bnum i m cfg ?net "is" operation response buf] Some dm
      by (simp add: ei g_def s1_def)
    have "echoed (fst (read_loop cfg ?net tag bnum is (operation, response, buf(i := D i), s1)))
           (fst (snd (read_loop cfg ?net tag bnum is (operation, response, buf(i := D i), s1)))) \<and>
         (\<forall>j \<in> set is.
            fst (snd (snd (read_loop cfg ?net tag bnum is (operation, response, buf(i := D i), s1)))) j = D j) \<and>
         (\<forall>j. j \<notin> set is \<longrightarrow>
            fst (snd (snd (read_loop cfg ?net tag bnum is (operation, response, buf(i := D i), s1)))) j = (buf(i := D i)) j)"
    proof (rule Cons.IH [OF wf1 pos1])
      show "\<forall>i \<in> set is. disk (Globtag s1 tag (bnum + i)) = d \<and>
                  diskPosition (Globtag s1 tag (bnum + i)) = p + int i"
        using Cons.prems(3) by (simp add: s1_def)
      show "\<forall>i \<in> set is. p + int i < 2 ^ 31" using Cons.prems(4) by simp
      show "\<forall>i \<in> set is. cached (cache_vars s1) (slot_key d (p + int i)) (D i)"
        using c1 by simp
      show "\<forall>i \<in> set is. remote s1 (slot_key d (p + int i)) = D i"
        using Cons.prems(6) by (simp add: s1_def)
      show "echoed operation response" by (rule Cons.prems(7))
    qed
    then show ?thesis
      unfolding step by auto
  next
    case None
    define op where "op = request (RAID_READ cfg) 1 d (p + int i)"
    define s2 where "s2 = cache_put d (p + int i) (D i) s1"
    have b: "bus cfg ?net op i buf s1 = (op, buf(i := D i), s1)"
      using Cons.prems(6) bus_read_ideal [OF rcfg, of d "p + int i" i buf s1]
      by (simp add: op_def s1_def slot_key_def)
    have step: "read_loop cfg ?net tag bnum (i # is) (operation, response, buf, s) =
        read_loop cfg ?net tag bnum is (op, op, buf(i := D i), s2)"
      using read_loop_miss [of s tag bnum i s1 op cfg ?net buf op "buf(i := D i)" s1 "is"
          operation response] None b
      by (simp add: ei g_def s1_def op_def s2_def)
    have wf2: "cache_wf fresh (cache_vars s2)"
      using wf1 by (simp add: s2_def cache_put_wf)
    have pos2: "0 < glob_max_items (cache_vars s2)"
      using pos1 by (simp add: s2_def)
    have c2: "cached (cache_vars s2) (slot_key d (p + int j)) (D j)" if j: "j \<in> set is" for j
    proof (cases "j = i")
      case True
      with cache_put_same [OF wf1 pos1, of d "p + int i" "D i"] show ?thesis
        by (simp add: s2_def)
    next
      case False
      have "slot_key d (p + int j) \<noteq> slot_key d (p + int i)"
        using False lo Cons.prems(4) j by (simp add: slot_key_inj)
      moreover have "slot_key d (p + int j) \<noteq> sentinel"
        using lo Cons.prems(4) j by (intro slot_key_real) simp_all
      moreover have "cached (cache_vars s1) (slot_key d (p + int j)) (D j)"
        using c1 j by simp
      ultimately show ?thesis
        unfolding s2_def using wf1 pos1 by (intro cache_put_other)
    qed
    have "echoed (fst (read_loop cfg ?net tag bnum is (op, op, buf(i := D i), s2)))
           (fst (snd (read_loop cfg ?net tag bnum is (op, op, buf(i := D i), s2)))) \<and>
         (\<forall>j \<in> set is.
            fst (snd (snd (read_loop cfg ?net tag bnum is (op, op, buf(i := D i), s2)))) j = D j) \<and>
         (\<forall>j. j \<notin> set is \<longrightarrow>
            fst (snd (snd (read_loop cfg ?net tag bnum is (op, op, buf(i := D i), s2)))) j = (buf(i := D i)) j)"
    proof (rule Cons.IH [OF wf2 pos2])
      show "\<forall>i \<in> set is. disk (Globtag s2 tag (bnum + i)) = d \<and>
                  diskPosition (Globtag s2 tag (bnum + i)) = p + int i"
        using Cons.prems(3) by (simp add: s1_def s2_def)
      show "\<forall>i \<in> set is. p + int i < 2 ^ 31" using Cons.prems(4) by simp
      show "\<forall>i \<in> set is. cached (cache_vars s2) (slot_key d (p + int i)) (D i)"
        using c2 by simp
      show "\<forall>i \<in> set is. remote s2 (slot_key d (p + int i)) = D i"
        using Cons.prems(6) by (simp add: s1_def s2_def)
      show "echoed op op" unfolding op_def by (rule echoed_request)
    qed
    then show ?thesis
      unfolding step by auto
  qed
qed

subsection \<open>An append against the ideal array\<close>

lemma slot_key_plus: "slot_key d (p + int i) = (word_of_int d, word_of_int p + of_nat i)"
  by (simp add: slot_key_def)

lemma append_blocks_ideal:
  assumes cfg: "config_ok cfg" and n: "blks < 256"
      and wf: "cache_wf fresh (cache_vars s)" and pos: "0 < glob_max_items (cache_vars s)"
      and d: "0 \<le> dsk" "dsk < 256" and b: "0 \<le> bdsk" "bdsk < 256" and ne: "dsk \<noteq> bdsk"
      and lo: "- 1 \<le> blocks (array s dsk)" "- 1 \<le> blocks (array s bdsk)"
      and hi: "blocks (array s dsk) + 1 + int blks \<le> 2 ^ 31"
              "blocks (array s bdsk) + 1 + int blks \<le> 2 ^ 31"
  shows "\<exists>s'. append_blocks cfg (ideal_array cfg) tag bnum blks (dsk, bdsk, D, s) =
                 Some (0, dsk, bdsk, D, s') \<and>
              cache_wf fresh (cache_vars s') \<and>
              glob_max_items (cache_vars s') = glob_max_items (cache_vars s) \<and>
              (\<forall>i < blks. disk (Globtag s' tag (bnum + i)) = dsk \<and>
                 diskPosition (Globtag s' tag (bnum + i)) = blocks (array s dsk) + 1 + int i) \<and>
              (\<forall>i < blks. cached (cache_vars s') (slot_key dsk (blocks (array s dsk) + 1 + int i)) (D i)) \<and>
              (\<forall>i < blks. remote s' (slot_key dsk (blocks (array s dsk) + 1 + int i)) = D i)"
proof -
  let ?net = "ideal_array cfg"
  have w: "0 \<le> RAID_WRITE cfg" "RAID_WRITE cfg < 256"
    using cfg by (simp_all add: config_ok_def)
  note iw = issue_write_ideal [OF w n]
  define s1 where "s1 = put_fresh dsk D [0..<blks] s"
  define s2 where "s2 = snd (snd (issue cfg ?net (request (RAID_WRITE cfg) (int blks) dsk
      (blocks (array s dsk) + 1)) 0 D s1))"
  define s3 where "s3 = put_fresh bdsk D [0..<blks] s2"
  define s4 where "s4 = snd (snd (issue cfg ?net (request (RAID_WRITE cfg) (int blks) bdsk
      (blocks (array s bdsk) + 1)) 0 D s3))"
  define s5 where "s5 = s4\<lparr>tagcounter := (tagcounter s4)(tag := tagcounter s4 tag + int blks)\<rparr>"
  define s6 where "s6 = snd (record_append tag dsk bdsk [0..<blks] (bnum, s5))"
  have a2: "array s2 = array s" by (simp add: s2_def s1_def)
  have eq: "append_blocks cfg ?net tag bnum blks (dsk, bdsk, D, s) = Some (0, dsk, bdsk, D, s6)"
    by (simp add: append_blocks_def split_def Let_def iw s6_def s5_def s4_def s3_def s2_def s1_def)
  have c1: "cache_vars s2 = cache_vars s1" by (simp add: s2_def)
  have c6: "cache_vars s6 = cache_vars s3" by (simp add: s6_def s5_def s4_def)
  have wf1: "cache_wf fresh (cache_vars s1)" using wf by (simp add: s1_def put_fresh_wf)
  then have wf2: "cache_wf fresh (cache_vars s2)" by (simp add: c1)
  then have wf3: "cache_wf fresh (cache_vars s3)" by (simp add: s3_def put_fresh_wf)
  have pos2: "0 < glob_max_items (cache_vars s2)" using pos by (simp add: c1 s1_def)
  have m6: "glob_max_items (cache_vars s6) = glob_max_items (cache_vars s)"
    by (simp add: c6 s3_def c1 s1_def)
  have tab: "disk (Globtag s6 tag (bnum + i)) = dsk \<and>
      diskPosition (Globtag s6 tag (bnum + i)) = blocks (array s dsk) + 1 + int i" if "i < blks" for i
    using record_append_table [OF ne, of i "[0..<blks]" tag bnum s5] that
    by (simp add: s6_def s5_def s4_def s3_def a2)
  have ca: "cached (cache_vars s6) (slot_key dsk (blocks (array s dsk) + 1 + int i)) (D i)"
    if i: "i < blks" for i
  proof -
    have "cached (cache_vars s1) (slot_key dsk (blocks (array s dsk) + 1 + int i)) (D i)"
      unfolding s1_def using wf pos lo(1) hi(1) i by (intro put_fresh_cached) auto
    then have "cached (cache_vars s2) (slot_key dsk (blocks (array s dsk) + 1 + int i)) (D i)"
      by (simp add: c1)
    moreover have "slot_key dsk (blocks (array s dsk) + 1 + int i) \<noteq> sentinel"
      using lo(1) hi(1) i by (intro slot_key_real) simp_all
    ultimately have "cached (cache_vars s3) (slot_key dsk (blocks (array s dsk) + 1 + int i)) (D i)"
      unfolding s3_def using wf2 pos2 d b ne by (intro put_fresh_other) (simp_all add: slot_key_disk)
    then show ?thesis by (simp add: c6)
  qed
  have re: "remote s6 (slot_key dsk (blocks (array s dsk) + 1 + int i)) = D i" if i: "i < blks" for i
  proof -
    have r2: "remote s2 = fold (\<lambda>i st. st((word_of_int dsk, word_of_int (blocks (array s dsk) + 1) + of_nat i) := D i))
        [0..<blks] (remote s)"
      by (simp add: s2_def iw s1_def)
    have r6: "remote s6 = fold (\<lambda>i st. st((word_of_int bdsk, word_of_int (blocks (array s bdsk) + 1) + of_nat i) := D i))
        [0..<blks] (remote s2)"
      by (simp add: s6_def s5_def s4_def iw s3_def)
    have "(word_of_int dsk :: 8 word) \<noteq> word_of_int bdsk"
      using slot_key_disk [OF d b ne, of 0 0] by (simp add: slot_key_def)
    then have "remote s6 (slot_key dsk (blocks (array s dsk) + 1 + int i)) =
        remote s2 (slot_key dsk (blocks (array s dsk) + 1 + int i))"
      unfolding r6 by (intro fold_store_other) (auto simp add: slot_key_def)
    also have "\<dots> = D i"
      unfolding r2 slot_key_plus using i n by (intro fold_store_at) simp_all
    finally show ?thesis .
  qed
  from eq wf3 m6 tab ca re show ?thesis
    by (intro exI [of _ s6]) (simp add: c6)
qed

lemma both_loop_range:
  assumes "both_loop cfg d b rs = Some (d', b', rs')"
      and "0 \<le> d" "d < int (RAID_DISKS cfg)" "0 \<le> b" "b < int (RAID_DISKS cfg)"
  shows "0 \<le> d' \<and> d' < int (RAID_DISKS cfg) \<and> 0 \<le> b' \<and> b' < int (RAID_DISKS cfg)"
  using assms
proof (induction cfg d b rs rule: both_loop.induct)
  case (1 cfg d b r1 r2 rs)
  have pos: "0 < RAID_DISKS cfg" using "1.prems"(2,3) by simp
  show ?case
  proof (cases "d = b")
    case True
    with "1.prems"(1) have "both_loop cfg (int (r1 mod RAID_DISKS cfg)) (int (r2 mod RAID_DISKS cfg)) rs =
        Some (d', b', rs')" by simp
    then show ?thesis
      using pos by (intro "1.IH" [OF True]) simp_all
  next
    case False
    with "1.prems" show ?thesis by simp
  qed
qed (auto split: if_splits)

lemma tagline_write_append:
  assumes "\<not> int bnum < tagcounter s tag"
      and "tagline_write cfg net tag bnum blks buf s = Some (rc, buf', s')"
  shows "\<exists>r1 r2 rs0 dsk bdsk rs d' b'.
           rand_values s = r1 # r2 # rs0 \<and>
           both_loop cfg (int (r1 mod RAID_DISKS cfg)) (int (r2 mod RAID_DISKS cfg)) rs0 =
             Some (dsk, bdsk, rs) \<and>
           append_blocks cfg net tag bnum blks (dsk, bdsk, buf, s\<lparr>rand_values := rs\<rparr>) =
             Some (rc, d', b', buf', s')"
proof -
  from assms(2) obtain r1 r2 rs0 where rv: "rand_values s = r1 # r2 # rs0"
    by (auto simp add: tagline_write_def Let_def split: list.splits)
  from assms(2) rv obtain dsk bdsk rs where
    ch: "chooseDisk cfg (Some (int (r1 mod RAID_DISKS cfg))) (Some (int (r2 mod RAID_DISKS cfg)))
           (int blks) rs0 = Some (Some dsk, Some bdsk, rs)"
    by (auto simp add: tagline_write_def Let_def split: option.splits)
  then have bl: "both_loop cfg (int (r1 mod RAID_DISKS cfg)) (int (r2 mod RAID_DISKS cfg)) rs0 =
      Some (dsk, bdsk, rs)"
    by (auto simp add: chooseDisk_def split: option.splits)
  from assms rv ch obtain d' b' where
    "append_blocks cfg net tag bnum blks (dsk, bdsk, buf, s\<lparr>rand_values := rs\<rparr>) =
       Some (rc, d', b', buf', s')"
    by (auto simp add: tagline_write_def Let_def split_def split: option.splits)
  with rv bl show ?thesis by blast
qed

subsection \<open>Initialisation against the ideal array\<close>

lemma issue_ideal_ok: "fst (issue cfg (ideal_array cfg) (request t q d i) off buf s) = 0"
  by (simp add: issue_def bus_def client_raid_bus_request_def ideal_array_def Let_def
      check_response_def split_def request_def extract_echo)

lemma format_loop_ideal:
  assumes "\<forall>d \<in> set ds. status (array s (int d)) = RAID_DISK_UNINITIALIZED cfg" "distinct ds"
  shows "fst (format_loop cfg (ideal_array cfg) ds s) = 0 \<and>
         cache_vars (snd (format_loop cfg (ideal_array cfg) ds s)) = cache_vars s \<and>
         rand_values (snd (format_loop cfg (ideal_array cfg) ds s)) = rand_values s \<and>
         (\<forall>d \<in> set ds. blocks (array (snd (format_loop cfg (ideal_array cfg) ds s)) (int d)) = - 1) \<and>
         (\<forall>e. e \<notin> int ` set ds \<longrightarrow>
            array (snd (format_loop cfg (ideal_array cfg) ds s)) e = array s e)"
  using assms
proof (induction ds arbitrary: s)
  case Nil
  then show ?case by simp
next
  case (Cons d ds)
  let ?net = "ideal_array cfg"
  define s1 where "s1 = snd (snd (issue cfg ?net (request (RAID_FORMAT cfg) 0 (int d) 0) 0 (\<lambda>k. []) s))"
  define s2 where "s2 = set_disk (int d) (\<lambda>a. a\<lparr>blocks := - 1\<rparr>)
      (set_disk (int d) (\<lambda>a. a\<lparr>status := RAID_DISK_READY cfg\<rparr>) s1)"
  have step: "format_loop cfg ?net (d # ds) s = format_loop cfg ?net ds s2"
    using Cons.prems by (simp add: Let_def split_def issue_ideal_ok s1_def s2_def)
  have a2: "array s2 e = (if e = int d then (array s e)\<lparr>status := RAID_DISK_READY cfg, blocks := - 1\<rparr>
      else array s e)" for e
    by (simp add: s2_def s1_def)
  have c2: "cache_vars s2 = cache_vars s" "rand_values s2 = rand_values s"
    by (simp_all add: s2_def s1_def)
  have d: "d \<notin> set ds" "distinct ds" using Cons.prems(2) by simp_all
  have "\<forall>d \<in> set ds. status (array s2 (int d)) = RAID_DISK_UNINITIALIZED cfg"
    using Cons.prems(1) d(1) by (auto simp add: a2)
  from Cons.IH [OF this d(2)] have
    ih: "fst (format_loop cfg ?net ds s2) = 0"
        "cache_vars (snd (format_loop cfg ?net ds s2)) = cache_vars s2"
        "rand_values (snd (format_loop cfg ?net ds s2)) = rand_values s2"
        "\<forall>d \<in> set ds. blocks (array (snd (format_loop cfg ?net ds s2)) (int d)) = - 1"
        "\<forall>e. e \<notin> int ` set ds \<longrightarrow> array (snd (format_loop cfg ?net ds s2)) e = array s2 e"
    by simp_all
  have "int d \<notin> int ` set ds" using d(1) by auto
  with ih(5) have "blocks (array (snd (format_loop cfg ?net ds s2)) (int d)) = - 1"
    by (simp add: a2)
  moreover have "array (snd (format_loop cfg ?net ds s2)) e = array s e"
    if "e \<notin> int ` set (d # ds)" for e
    using that ih(5) by (simp add: a2)
  ultimately show ?case
    unfolding step using ih(1-4) by (simp add: c2)
qed

lemma tagline_driver_init_ideal:
  assumes "\<forall>d. status (array s d) = RAID_DISK_UNINITIALIZED cfg"
  shows "fst (tagline_driver_init cfg (ideal_array cfg) maxlines fresh s) = 0"
    and "cache_vars (snd (tagline_driver_init cfg (ideal_array cfg) maxlines fresh s)) =
           snd (init_raid_cache (TAGLINE_CACHE_SIZE cfg) fresh (cache_vars s))"
    and "rand_values (snd (tagline_driver_init cfg (ideal_array cfg) maxlines fresh s)) = rand_values s"
    and "0 \<le> e \<Longrightarrow> e < int (RAID_DISKS cfg) \<Longrightarrow>
           blocks (array (snd (tagline_driver_init cfg (ideal_array cfg) maxlines fresh s)) e) = - 1"
proof -
  let ?net = "ideal_array cfg"
  define s1 where "s1 = s\<lparr>maxtaglines := maxlines,
      cache_vars := snd (init_raid_cache (TAGLINE_CACHE_SIZE cfg) fresh (cache_vars s)),
      Globtag := (\<lambda>i j. if i < maxlines \<and> j < MAX_TAGLINE_BLOCK_NUMBER cfg
                                   then unassigned else Globtag s i j),
      tagcounter := (\<lambda>i. if i < maxlines then 0 else tagcounter s i)\<rparr>"
  define s2 where "s2 = snd (snd (issue cfg ?net (request (RAID_INIT cfg)
                        (int (RAID_DISKBLOCKS cfg div RAID_TRACK_BLOCKS cfg + 3))
                        (int (RAID_DISKS cfg)) 0) 0 (\<lambda>k. []) s1))"
  have eq: "tagline_driver_init cfg ?net maxlines fresh s = format_loop cfg ?net [0..<RAID_DISKS cfg] s2"
    by (simp add: tagline_driver_init_def Let_def split_def issue_ideal_ok s2_def s1_def
        cong: if_cong)
  have "\<forall>d \<in> set [0..<RAID_DISKS cfg]. status (array s2 (int d)) = RAID_DISK_UNINITIALIZED cfg"
    using assms by (simp add: s2_def s1_def)
  from format_loop_ideal [OF this] have
    fl: "fst (format_loop cfg ?net [0..<RAID_DISKS cfg] s2) = 0"
        "cache_vars (snd (format_loop cfg ?net [0..<RAID_DISKS cfg] s2)) = cache_vars s2"
        "rand_values (snd (format_loop cfg ?net [0..<RAID_DISKS cfg] s2)) = rand_values s2"
        "\<forall>d \<in> set [0..<RAID_DISKS cfg].
           blocks (array (snd (format_loop cfg ?net [0..<RAID_DISKS cfg] s2)) (int d)) = - 1"
    by simp_all
  show "fst (tagline_driver_init cfg ?net maxlines fresh s) = 0"
    unfolding eq by (rule fl(1))
  show "cache_vars (snd (tagline_driver_init cfg ?net maxlines fresh s)) =
           snd (init_raid_cache (TAGLINE_CACHE_SIZE cfg) fresh (cache_vars s))"
    unfolding eq fl(2) by (simp add: s2_def s1_def)
  show "rand_values (snd (tagline_driver_init cfg ?net maxlines fresh s)) = rand_values s"
    unfolding eq fl(3) by (simp add: s2_def s1_def)
  show "blocks (array (snd (tagline_driver_init cfg ?net maxlines fresh s)) e) = - 1"
    if "0 \<le> e" "e < int (RAID_DISKS cfg)"
  proof -
    from that have "nat e \<in> set [0..<RAID_DISKS cfg]" by simp
    with fl(4) have "blocks (array (snd (format_loop cfg ?net [0..<RAID_DISKS cfg] s2)) (int (nat e))) = - 1"
      by blast
    with that(1) show ?thesis unfolding eq by simp
  qed
qed

lemma started_facts:
  "cache_wf fresh0 (cache_vars started)"
  "glob_max_items (cache_vars started) = 2"
  "rand_values started = [0, 1]"
  "blocks (array started 0) = - 1"
  "blocks (array started 1) = - 1"
  "tagcounter started 0 = 0"
  "maxtaglines started = 1"
proof -
  have u: "\<forall>d. status (array (driver_globals sample_config (\<lambda>k. []) [0, 1] :: store driver) d) =
      RAID_DISK_UNINITIALIZED sample_config"
    by (simp add: driver_globals_def)
  note i = tagline_driver_init_ideal [OF u, where maxlines = 1 and fresh = fresh0]
  have c: "cache_vars started = snd (init_raid_cache 2 fresh0 cache_globals)"
    unfolding started_def i(2) by (simp add: sample_config_def driver_globals_def)
  show "cache_wf fresh0 (cache_vars started)"
    unfolding c by (rule cache_wf_init)
  show "glob_max_items (cache_vars started) = 2"
    unfolding c by (simp add: init_raid_cache_def)
  show "rand_values started = [0, 1]"
    unfolding started_def i(3) by (simp add: driver_globals_def)
  show "blocks (array started 0) = - 1"
    unfolding started_def by (rule i(4)) (simp_all add: sample_config_def)
  show "blocks (array started 1) = - 1"
    unfolding started_def by (rule i(4)) (simp_all add: sample_config_def)
  show "tagcounter started 0 = 0"
    unfolding started_def by (simp add: tagline_driver_init_table)
  show "maxtaglines started = 1"
    unfolding started_def by (simp add: tagline_driver_init_table)
qed

subsection \<open>Reading back what was appended\<close>

lemma tagline_write_ideal:
  assumes cfg: "config_ok cfg" and n: "blks < 256"
      and wf: "cache_wf fresh (cache_vars s)" and pos: "0 < glob_max_items (cache_vars s)"
      and cur: "\<forall>d. 0 \<le> d \<and> d < int (RAID_DISKS cfg) \<longrightarrow>
                  - 1 \<le> blocks (array s d) \<and> blocks (array s d) + 1 + int blks \<le> 2 ^ 31"
      and app: "tagcounter s tag \<le> int bnum"
      and rv: "rand_values s = r1 # r2 # rs0"
      and bl: "both_loop cfg (int (r1 mod RAID_DISKS cfg)) (int (r2 mod RAID_DISKS cfg)) rs0 =
                 Some (dsk, bdsk, rs)"
  shows "\<exists>s'. tagline_write cfg (ideal_array cfg) tag bnum blks D s = Some (0, D, s') \<and>
              maxtaglines s' = maxtaglines s \<and>
              cache_wf fresh (cache_vars s') \<and>
              glob_max_items (cache_vars s') = glob_max_items (cache_vars s) \<and>
              (\<forall>i < blks. disk (Globtag s' tag (bnum + i)) = dsk \<and>
                 diskPosition (Globtag s' tag (bnum + i)) = blocks (array s dsk) + 1 + int i) \<and>
              (\<forall>i < blks. cached (cache_vars s') (slot_key dsk (blocks (array s dsk) + 1 + int i)) (D i)) \<and>
              (\<forall>i < blks. remote s' (slot_key dsk (blocks (array s dsk) + 1 + int i)) = D i)"
proof -
  let ?net = "ideal_array cfg"
  define s0 where "s0 = s\<lparr>rand_values := rs\<rparr>"
  have disks: "0 < RAID_DISKS cfg" "RAID_DISKS cfg \<le> 256"
    using cfg by (simp_all add: config_ok_def)
  have rg: "0 \<le> dsk \<and> dsk < int (RAID_DISKS cfg) \<and> 0 \<le> bdsk \<and> bdsk < int (RAID_DISKS cfg)"
    using disks(1) by (intro both_loop_range [OF bl]) simp_all
  have ne: "dsk \<noteq> bdsk" using bl by (rule both_loop_result)
  have "\<exists>s'. append_blocks cfg ?net tag bnum blks (dsk, bdsk, D, s0) = Some (0, dsk, bdsk, D, s') \<and>
              cache_wf fresh (cache_vars s') \<and>
              glob_max_items (cache_vars s') = glob_max_items (cache_vars s0) \<and>
              (\<forall>i < blks. disk (Globtag s' tag (bnum + i)) = dsk \<and>
                 diskPosition (Globtag s' tag (bnum + i)) = blocks (array s0 dsk) + 1 + int i) \<and>
              (\<forall>i < blks. cached (cache_vars s') (slot_key dsk (blocks (array s0 dsk) + 1 + int i)) (D i)) \<and>
              (\<forall>i < blks. remote s' (slot_key dsk (blocks (array s0 dsk) + 1 + int i)) = D i)"
    using cfg n wf pos rg ne cur disks(2)
    by (intro append_blocks_ideal [where fresh = fresh]) (simp_all add: s0_def)
  then obtain s' where
    ap: "append_blocks cfg ?net tag bnum blks (dsk, bdsk, D, s0) = Some (0, dsk, bdsk, D, s')"
    and props: "cache_wf fresh (cache_vars s')"
      "glob_max_items (cache_vars s') = glob_max_items (cache_vars s)"
      "\<forall>i < blks. disk (Globtag s' tag (bnum + i)) = dsk \<and>
                 diskPosition (Globtag s' tag (bnum + i)) = blocks (array s dsk) + 1 + int i"
      "\<forall>i < blks. cached (cache_vars s') (slot_key dsk (blocks (array s dsk) + 1 + int i)) (D i)"
      "\<forall>i < blks. remote s' (slot_key dsk (blocks (array s dsk) + 1 + int i)) = D i"
    by (auto simp add: s0_def)
  have w: "tagline_write cfg ?net tag bnum blks D s = Some (0, D, s')"
    using app ap by (simp add: tagline_write_def rv chooseDisk_def bl Let_def s0_def)
  have "keeps_ok s s'" using w by (rule tagline_write_ok)
  then have "maxtaglines s' = maxtaglines s" by (simp add: keeps_ok_def)
  with w props show ?thesis by blast
qed

text \<open>
  C1.  On the array in which every operation succeeds, with the cache well formed and of
  positive capacity, every disk's cursor in a range where the new positions fit the
  signed 32-bit \<^verbatim>\<open>int\<close>, and at most 255 blocks: if \<^verbatim>\<open>tagline_write\<close> of the blocks \<open>D\<close> at a
  block number not below the tagline's \<^verbatim>\<open>tagcounter\<close> (an append) returns 0, then
  \<^verbatim>\<open>tagline_read\<close> of the same range in the resulting state returns 0 and fills the first
  \<open>blks\<close> blocks of the caller's buffer with \<open>D\<close>, whatever the buffer held before.
\<close>

theorem round_trip:
  assumes "config_ok cfg" and "blks < 256"
      and "cache_wf fresh (cache_vars s)" and "0 < glob_max_items (cache_vars s)"
      and "\<forall>d. 0 \<le> d \<and> d < int (RAID_DISKS cfg) \<longrightarrow>
             - 1 \<le> blocks (array s d) \<and> blocks (array s d) + 1 + int blks \<le> 2 ^ 31"
      and "tagcounter s tag \<le> int bnum"
      and "tagline_write cfg (ideal_array cfg) tag bnum blks D s = Some (0, D', s')"
  shows "fst (tagline_read cfg (ideal_array cfg) tag bnum blks buf s') = 0 \<and>
         (\<forall>i < blks. fst (snd (tagline_read cfg (ideal_array cfg) tag bnum blks buf s')) i = D i)"
proof -
  let ?net = "ideal_array cfg"
  from assms(6) have na: "\<not> int bnum < tagcounter s tag" by simp
  from tagline_write_append [OF na assms(7)] obtain r1 r2 rs0 dsk bdsk rs where
    rv: "rand_values s = r1 # r2 # rs0"
    and bl: "both_loop cfg (int (r1 mod RAID_DISKS cfg)) (int (r2 mod RAID_DISKS cfg)) rs0 =
               Some (dsk, bdsk, rs)"
    by blast
  have disks: "0 < RAID_DISKS cfg" using assms(1) by (simp add: config_ok_def)
  have rg: "0 \<le> dsk \<and> dsk < int (RAID_DISKS cfg)"
    using both_loop_range [OF bl] disks by simp
  define p where "p = blocks (array s dsk) + 1"
  from tagline_write_ideal [OF assms(1-6) rv bl, of D] assms(7) have
    wf: "cache_wf fresh (cache_vars s')"
    and pos: "0 < glob_max_items (cache_vars s')"
    and tab: "\<forall>i \<in> set [0..<blks]. disk (Globtag s' tag (bnum + i)) = dsk \<and>
                 diskPosition (Globtag s' tag (bnum + i)) = p + int i"
    and c: "\<forall>i \<in> set [0..<blks]. cached (cache_vars s') (slot_key dsk (p + int i)) (D i)"
    and r: "\<forall>i \<in> set [0..<blks]. remote s' (slot_key dsk (p + int i)) = D i"
    using assms(4) by (auto simp add: p_def)
  have lo: "0 \<le> p" and hi: "\<forall>i \<in> set [0..<blks]. p + int i < 2 ^ 31"
    using assms(5) rg by (auto simp add: p_def)
  define rl where "rl = read_loop cfg ?net tag bnum [0..<blks] (0, 0, buf, s')"
  from read_loop_ideal [OF assms(1) wf pos tab lo hi c r echoed_zero, of buf] have
    e: "echoed (fst rl) (fst (snd rl))" and d: "\<forall>i < blks. fst (snd (snd rl)) i = D i"
    by (simp_all add: rl_def)
  have "fst (check_response cfg (fst (snd rl)) (fst rl) (snd (snd (snd rl)))) = 0"
    using e by (rule echoed_check)
  then have "tagline_read cfg ?net tag bnum blks buf s' =
      (0, fst (snd (snd rl)), snd (check_response cfg (fst (snd rl)) (fst rl) (snd (snd (snd rl)))))"
    by (simp add: tagline_read_def split_def Let_def rl_def)
  with d show ?thesis by simp
qed


theorem round_trip_witness:
  "\<exists>D' s'. tagline_write sample_config (ideal_array sample_config) 0 0 2 abc started = Some (0, D', s') \<and>
     fst (tagline_read sample_config (ideal_array sample_config) 0 0 2 (\<lambda>i. []) s') = 0 \<and>
     fst (snd (tagline_read sample_config (ideal_array sample_config) 0 0 2 (\<lambda>i. []) s')) 0 = ''a'' \<and>
     fst (snd (tagline_read sample_config (ideal_array sample_config) 0 0 2 (\<lambda>i. []) s')) 1 = ''b''"
proof -
  let ?net = "ideal_array sample_config"
  have cfg: "config_ok sample_config"
    by (simp add: config_ok_def sample_config_def)
  have n: "(2 :: nat) < 256" by simp
  have pos: "0 < glob_max_items (cache_vars started)"
    by (simp add: started_facts)
  have two: "d = 0 \<or> d = 1" if "0 \<le> d" "d < 2" for d :: int
    using that by auto
  have cur: "\<forall>d. 0 \<le> d \<and> d < int (RAID_DISKS sample_config) \<longrightarrow>
      - 1 \<le> blocks (array started d) \<and> blocks (array started d) + 1 + int 2 \<le> 2 ^ 31"
  proof (intro allI impI)
    fix d :: int
    assume "0 \<le> d \<and> d < int (RAID_DISKS sample_config)"
    then have "d = 0 \<or> d = 1"
      using two [of d] by (simp add: sample_config_def)
    then show "- 1 \<le> blocks (array started d) \<and> blocks (array started d) + 1 + int 2 \<le> 2 ^ 31"
      by (auto simp add: started_facts)
  qed
  have app: "tagcounter started 0 \<le> int 0"
    by (simp add: started_facts)
  have bl: "both_loop sample_config (int (0 mod RAID_DISKS sample_config))
      (int (1 mod RAID_DISKS sample_config)) [] = Some (0, 1, [])"
    by (simp add: sample_config_def)
  from tagline_write_ideal [OF cfg n started_facts(1) pos cur app started_facts(3) bl, of abc]
  obtain s' where w: "tagline_write sample_config ?net 0 0 2 abc started = Some (0, abc, s')"
    by blast
  from round_trip [OF cfg n started_facts(1) pos cur app w, of "\<lambda>i. []"]
  have "fst (tagline_read sample_config ?net 0 0 2 (\<lambda>i. []) s') = 0"
    and "fst (snd (tagline_read sample_config ?net 0 0 2 (\<lambda>i. []) s')) 0 = abc 0"
    and "fst (snd (tagline_read sample_config ?net 0 0 2 (\<lambda>i. []) s')) 1 = abc 1"
    by simp_all
  with w show ?thesis
    by (simp add: abc_def)
qed

subsection \<open>A reachable state with an assigned block\<close>

theorem mirror_integrity_witness:
  "\<exists>s. reachable sample_config (ideal_array sample_config) s \<and>
     0 < maxtaglines s \<and> (0 :: nat) < MAX_TAGLINE_BLOCK_NUMBER sample_config \<and>
     disk (Globtag s 0 0) = 0 \<and>
     disk (Globtag s 0 0) \<noteq> backupDisk (Globtag s 0 0)"
proof -
  let ?net = "ideal_array sample_config"
  have cfg: "config_ok sample_config"
    by (simp add: config_ok_def sample_config_def)
  have n: "(2 :: nat) < 256" by simp
  have pos: "0 < glob_max_items (cache_vars started)"
    by (simp add: started_facts)
  have two: "d = 0 \<or> d = 1" if "0 \<le> d" "d < 2" for d :: int
    using that by auto
  have cur: "\<forall>d. 0 \<le> d \<and> d < int (RAID_DISKS sample_config) \<longrightarrow>
      - 1 \<le> blocks (array started d) \<and> blocks (array started d) + 1 + int 2 \<le> 2 ^ 31"
  proof (intro allI impI)
    fix d :: int
    assume "0 \<le> d \<and> d < int (RAID_DISKS sample_config)"
    then have "d = 0 \<or> d = 1"
      using two [of d] by (simp add: sample_config_def)
    then show "- 1 \<le> blocks (array started d) \<and> blocks (array started d) + 1 + int 2 \<le> 2 ^ 31"
      by (auto simp add: started_facts)
  qed
  have app: "tagcounter started 0 \<le> int 0"
    by (simp add: started_facts)
  have bl: "both_loop sample_config (int (0 mod RAID_DISKS sample_config))
      (int (1 mod RAID_DISKS sample_config)) [] = Some (0, 1, [])"
    by (simp add: sample_config_def)
  from tagline_write_ideal [OF cfg n started_facts(1) pos cur app started_facts(3) bl, of abc]
  obtain s' where w: "tagline_write sample_config ?net 0 0 2 abc started = Some (0, abc, s')"
    and m: "maxtaglines s' = maxtaglines started"
    and t: "\<forall>i < 2. disk (Globtag s' 0 (0 + i)) = 0"
    by blast
  have "reachable sample_config ?net started"
    unfolding started_def by (rule after_init)
  then have r: "reachable sample_config ?net s'"
    using w by (rule after_write)
  have m': "0 < maxtaglines s'" by (simp add: m started_facts)
  have j: "(0 :: nat) < MAX_TAGLINE_BLOCK_NUMBER sample_config"
    by (simp add: sample_config_def)
  from t have d: "disk (Globtag s' 0 0) = 0" by auto
  then have "disk (Globtag s' 0 0) \<noteq> - 1 \<or> backupDisk (Globtag s' 0 0) \<noteq> - 1" by simp
  from mirror_integrity [OF r m' j this] r m' j d show ?thesis
    by blast
qed

section \<open>Properties of recovery\<close>

subsection \<open>Recovery against the ideal array, and the cursors after an append\<close>


lemma check_request_echo: "fst (check_response cfg (request t q d i) (request t q d i) s) = 0"
  by (rule echoed_check) (rule echoed_request)









subsection \<open>A recovery that fails\<close>

lemma status_bit_read:
  "(ucast (drop_bit 63 (push_bit 31 (status_bit_set op))) :: 8 word) = 1"
  unfolding status_bit_set_def
  by (rule bit_word_eqI) (auto simp add: bit_simps dest: bit_imp_le_length)

lemma extract_status_bit: "fst (extract_raid_response cfg g (status_bit_set op) operation) = 1"
  by (simp add: extract_raid_response_def Let_def status_bit_read)

lemma check_status_bit: "fst (check_response cfg (status_bit_set op) operation s) = 1"
  by (simp add: check_response_def split_def extract_status_bit)

lemma report_is_request:
  "create_raid_request t q d i OR ucast (k :: 32 word) = create_raid_request t q d (i OR k)"
  unfolding create_raid_request_def Let_def
  by (rule bit_word_eqI) (auto simp add: bit_simps dest: bit_imp_le_length)

lemma extract_status_report:
  assumes "uint t = RAID_STATUS cfg"
  shows "extract_raid_response cfg g (create_raid_request t q d i') (create_raid_request t q d i) =
         (0, g\<lparr>r_id := i', r_status := 0, r_diskNumber := d, r_blockQuantity := q, r_type := t\<rparr>)"
  using assms
  by (simp add: extract_raid_response_def Let_def request_fields)

lemma bus_sample:
  "bus cfg sample_array op off buf s =
     (case fst (remote s) of [] \<Rightarrow> op | f # fs \<Rightarrow> f op, buf,
      s\<lparr>remote := (tl (fst (remote s)), snd (remote s) @ [op])\<rparr>)"
proof -
  have b: "(\<lambda>j. if c \<and> off \<le> j \<and> j < off + n then if c \<and> j - off < n then buf (off + (j - off)) else []
      else buf j) = buf" for c n
    by (auto simp add: fun_eq_iff)
  show ?thesis
    by (cases "remote s"; cases "fst (remote s)")
       (simp_all add: bus_def client_raid_bus_request_def sample_array_def Let_def b)
qed


lemma check_reports_failed:
  "check_response sample_config (reports_failed sample_config (request 4 0 d 0)) (request 4 0 d 0) s =
     (0, s\<lparr>GlobResponse := (GlobResponse s)\<lparr>r_id := 2, r_status := 0, r_diskNumber := word_of_int d,
                                r_blockQuantity := 0, r_type := 4\<rparr>\<rparr>)"
proof -
  have "(word_of_int (RAID_DISK_FAILED sample_config) :: 64 word) = ucast (2 :: 32 word)"
    by (simp add: sample_config_def)
  then have "reports_failed sample_config (request 4 0 d 0) =
      create_raid_request 4 0 (word_of_int d) (0 OR 2)"
    by (simp only: reports_failed_def request_def report_is_request) simp
  moreover have "uint (4 :: 8 word) = RAID_STATUS sample_config"
    by (simp add: sample_config_def)
  ultimately show ?thesis
    by (simp add: check_response_def request_def extract_status_report)
qed

lemma check_request_result:
  "check_response cfg (request t q d i) (request t q d i) s =
     (0, s\<lparr>GlobResponse := (GlobResponse s)\<lparr>r_id := word_of_int i, r_status := 0,
            r_diskNumber := word_of_int d, r_blockQuantity := word_of_int q, r_type := word_of_int t\<rparr>\<rparr>)"
  by (simp add: check_response_def request_def extract_echo)

lemma recover_fails_on_status_bit:
  assumes "fst (remote s) = status_bit_set # fs"
  shows "fst (raid_disk_recover cfg sample_array zero dsk s) = 1"
    and "array (snd (raid_disk_recover cfg sample_array zero dsk s)) = array s"
    and "remote (snd (raid_disk_recover cfg sample_array zero dsk s)) =
           (fs, snd (remote s) @ [request (RAID_FORMAT cfg) 0 (uint dsk) 0])"
  using assms
  by (simp_all add: raid_disk_recover_def Let_def split_def bus_sample check_status_bit)

text \<open>
  C7.  \<^verbatim>\<open>raid_disk_signal\<close> on the sample configuration, in any driver state, against the
  scripted array that answers the STATUS request for disk 0 with the identifier
  \<^verbatim>\<open>RAID_DISK_FAILED\<close> and the request after it, the FORMAT of the recovery, with the
  status bit set.  \<^verbatim>\<open>raid_disk_recover\<close> returns 1 whenever the response to its FORMAT has
  the status bit set.  \<^verbatim>\<open>raid_disk_signal\<close> nevertheless goes on to the STATUS request
  for disk 1 and returns 0; disk 0 is left marked \<^verbatim>\<open>RAID_DISK_FAILED\<close>.
\<close>

theorem failed_recovery_not_reported:
  "fst (raid_disk_recover sample_config sample_array zero 0
          (t\<lparr>remote := (status_bit_set # fs, l)\<rparr>)) = 1 \<and>
   (\<exists>s'. raid_disk_signal sample_config sample_array zero
           (s\<lparr>remote := ([reports_failed sample_config, status_bit_set], log)\<rparr>) = Some (0, s') \<and>
        status (array s' 0) = RAID_DISK_FAILED sample_config \<and>
        snd (remote s') = log @ [request 4 0 0 0, request 1 0 0 0, request 4 0 1 0])"
proof -
  let ?cfg = sample_config
  let ?net = sample_array
  define s0 where "s0 = s\<lparr>remote := ([reports_failed ?cfg, status_bit_set], log)\<rparr>"
  define s1 where "s1 = snd (check_response ?cfg (reports_failed ?cfg (request 4 0 0 0)) (request 4 0 0 0)
      (snd (snd (bus ?cfg ?net (request 4 0 0 0) 0 (\<lambda>k. []) s0))))"
  define s2 where "s2 = set_disk 0 (\<lambda>a. a\<lparr>status := RAID_DISK_FAILED ?cfg\<rparr>) s1"
  define s3 where "s3 = snd (raid_disk_recover ?cfg ?net zero 0 s2)"
  define s4 where "s4 = snd (check_response ?cfg (request 4 0 1 0) (request 4 0 1 0)
      (snd (snd (bus ?cfg ?net (request 4 0 1 0) 0 (\<lambda>k. []) s3))))"
  have r1: "remote s1 = ([status_bit_set], log @ [request 4 0 0 0])"
    by (simp add: s1_def bus_sample s0_def)
  have g1: "r_id (GlobResponse s1) = 2"
    by (simp add: s1_def check_reports_failed)
  have r2: "fst (remote s2) = status_bit_set # []" "snd (remote s2) = log @ [request 4 0 0 0]"
    by (simp_all add: s2_def r1)
  have a3: "status (array s3 0) = RAID_DISK_FAILED ?cfg"
    unfolding s3_def recover_fails_on_status_bit(2) [OF r2(1)] by (simp add: s2_def)
  have r3: "remote s3 = ([], log @ [request 4 0 0 0, request 1 0 0 0])"
    unfolding s3_def recover_fails_on_status_bit(3) [OF r2(1)] by (simp add: r2(2) sample_config_def)
  have step0: "signal_loop ?cfg ?net zero [0, 1] s0 = signal_loop ?cfg ?net zero [1] s3"
  proof -
    have b: "fst (bus ?cfg ?net (request 4 0 0 0) 0 (\<lambda>k. []) s0) = reports_failed ?cfg (request 4 0 0 0)"
      by (simp add: bus_sample s0_def)
    have c: "fst (check_response ?cfg (reports_failed ?cfg (request 4 0 0 0)) (request 4 0 0 0)
        (snd (snd (bus ?cfg ?net (request 4 0 0 0) 0 (\<lambda>k. []) s0)))) = 0"
      by (simp add: check_reports_failed)
    have f: "RAID_STATUS ?cfg = 4" "word_of_int (RAID_DISK_FAILED ?cfg) = (2 :: 32 word)"
      by (simp_all add: sample_config_def)
    show ?thesis
      using g1
      by (subst signal_loop.simps)
         (simp add: Let_def split_def f b c s1_def [symmetric] s2_def [symmetric] s3_def [symmetric])
  qed
  have r4: "snd (remote s4) = log @ [request 4 0 0 0, request 1 0 0 0, request 4 0 1 0]"
    by (simp add: s4_def bus_sample r3)
  have a4: "status (array s4 0) = RAID_DISK_FAILED ?cfg"
    by (simp add: s4_def a3)
  have g4: "r_id (GlobResponse s4) = 0"
    by (simp add: s4_def check_request_result)
  have step1: "signal_loop ?cfg ?net zero [1] s3 = (0, s4)"
  proof -
    have b: "fst (bus ?cfg ?net (request 4 0 1 0) 0 (\<lambda>k. []) s3) = request 4 0 1 0"
      by (simp add: bus_sample r3)
    have c: "fst (check_response ?cfg (request 4 0 1 0) (request 4 0 1 0)
        (snd (snd (bus ?cfg ?net (request 4 0 1 0) 0 (\<lambda>k. []) s3)))) = 0"
      by (rule check_request_echo)
    have f: "RAID_STATUS ?cfg = 4" "word_of_int (RAID_DISK_FAILED ?cfg) = (2 :: 32 word)"
      by (simp_all add: sample_config_def)
    show ?thesis
      using g4
      by (subst signal_loop.simps)
         (simp add: Let_def split_def f b c s4_def [symmetric])
  qed
  have l: "[0..<RAID_DISKS ?cfg] = [0, 1]"
    by (simp add: sample_config_def upt_rec)
  have d: "\<not> RAID_DISKS ?cfg > 255"
    by (simp add: sample_config_def)
  have "raid_disk_signal ?cfg ?net zero s0 = Some (signal_loop ?cfg ?net zero [0..<RAID_DISKS ?cfg] s0)"
    using d by (simp only: raid_disk_signal_def if_False)
  then have "raid_disk_signal ?cfg ?net zero s0 = Some (0, s4)"
    unfolding l step0 step1 .
  with a4 r4 have "\<exists>s'. raid_disk_signal ?cfg ?net zero
           (s\<lparr>remote := ([reports_failed ?cfg, status_bit_set], log)\<rparr>) = Some (0, s') \<and>
        status (array s' 0) = RAID_DISK_FAILED ?cfg \<and>
        snd (remote s') = log @ [request 4 0 0 0, request 1 0 0 0, request 4 0 1 0]"
    unfolding s0_def by blast
  moreover have "fst (raid_disk_recover ?cfg ?net zero 0 (t\<lparr>remote := (status_bit_set # fs, l)\<rparr>)) = 1"
    by (rule recover_fails_on_status_bit) simp
  ultimately show ?thesis by simp
qed

subsection \<open>What a recovery sends and what it leaves unchanged\<close>













section \<open>Properties of reading and rewriting against a scripted array\<close>

subsection \<open>A read whose first response fails\<close>

lemma get_absent:
  assumes "\<forall>i < glob_max_items st. key_of (cacheArray st ! i) \<noteq> k"
  shows "\<forall>i < glob_max_items st. key_of (cacheArray (snd (get_raid_cache dsk blk st)) ! i) \<noteq> k"
proof (cases "find_slot (cacheArray st) (glob_max_items st) dsk blk")
  case None
  with assms show ?thesis
    by (simp add: get_raid_cache_def Let_def)
next
  case (Some j)
  have "key_of ((cacheArray st)[j := (cacheArray st ! j)\<lparr>c_timestamp := t\<rparr>] ! m) =
      key_of (cacheArray st ! m)" for m t
    by (rule key_of_update_same) (simp add: key_of_def)
  with assms Some show ?thesis
    by (simp add: get_raid_cache_def Let_def)
qed

lemma put_absent:
  assumes wf: "cache_wf fresh st" and pos: "0 < glob_max_items st"
      and ab: "\<forall>i < glob_max_items st. key_of (cacheArray st ! i) \<noteq> k"
      and ne: "k \<noteq> (dsk, blk)"
  shows "\<forall>i < glob_max_items st. key_of (cacheArray (snd (put_raid_cache dsk blk buf st)) ! i) \<noteq> k"
proof (intro allI impI notI)
  fix i
  assume i: "i < glob_max_items st"
    and k: "key_of (cacheArray (snd (put_raid_cache dsk blk buf st)) ! i) = k"
  from wf pos have "key_of (cacheArray st ! i) = k"
  proof (cases rule: put_cases [where dsk = dsk and blk = blk and buf = buf])
    case (refresh j)
    from k [unfolded refresh(4)] show ?thesis
      by (rule key_of_update_other) (use refresh(2) ne in \<open>simp add: key_of_def\<close>)
  next
    case insert
    from k [unfolded insert(3)] show ?thesis
      by (rule key_of_update_other) (use ne in \<open>auto simp add: key_of_def\<close>)
  next
    case (evict p)
    from k [unfolded evict(4)] show ?thesis
      by (rule key_of_update_other) (use ne in \<open>auto simp add: key_of_def\<close>)
  qed
  with ab i show False by simp
qed

text \<open>
  C3.  A read of two blocks on the sample configuration, from a state whose cache is
  empty, so that both blocks are fetched from the array, against the scripted array that
  answers the first request with the status bit set and echoes the second.  The first
  response fails validation when it is given to \<^verbatim>\<open>extract_raid_response\<close>; \<^verbatim>\<open>tagline_read\<close>
  issues the two READ requests and returns 0.
\<close>

theorem early_read_failure_not_reported:
  "fst (extract_raid_response sample_config g (status_bit_set (request 2 1 0 0)) (request 2 1 0 0)) = 1 \<and>
   fst (tagline_read sample_config sample_array 0 0 2 buf
          (s\<lparr>cache_vars := snd (init_raid_cache 2 fresh0 cache_globals),
             Globtag := (\<lambda>t j. \<lparr>disk = 0, diskPosition = int j, backupDisk = 1,
                                   backupDiskPosition = int j\<rparr>),
             remote := ([status_bit_set], log)\<rparr>)) = 0 \<and>
   snd (remote (snd (snd (tagline_read sample_config sample_array 0 0 2 buf
          (s\<lparr>cache_vars := snd (init_raid_cache 2 fresh0 cache_globals),
             Globtag := (\<lambda>t j. \<lparr>disk = 0, diskPosition = int j, backupDisk = 1,
                                   backupDiskPosition = int j\<rparr>),
             remote := ([status_bit_set], log)\<rparr>))))) =
     log @ [request 2 1 0 0, request 2 1 0 1]"
proof -
  let ?cfg = sample_config
  let ?net = sample_array
  define c0 where "c0 = snd (init_raid_cache 2 fresh0 cache_globals)"
  define S where "S = s\<lparr>cache_vars := c0,
             Globtag := (\<lambda>t j. \<lparr>disk = 0, diskPosition = int j, backupDisk = 1,
                                   backupDiskPosition = int j\<rparr>),
             remote := ([status_bit_set], log)\<rparr>"
  have rd: "RAID_READ ?cfg = 2" by (simp add: sample_config_def)
  have wf0: "cache_wf fresh0 c0" unfolding c0_def by (rule cache_wf_init)
  have m0: "glob_max_items c0 = 2" by (simp add: c0_def init_raid_cache_def)
  have ab0: "\<forall>i < glob_max_items c0. key_of (cacheArray c0 ! i) \<noteq> k" if "k \<noteq> sentinel" for k
    using wf0 that by (auto simp add: cache_wf_def c0_def init_raid_cache_def cache_globals_def)
  have k0: "((0, 0) :: RAIDDiskID \<times> RAIDBlockID) \<noteq> sentinel"
    and k1: "((0, 1) :: RAIDDiskID \<times> RAIDBlockID) \<noteq> sentinel"
    by (simp_all add: sentinel_def)
  define g0 where "g0 = get_raid_cache 0 0 c0"
  have miss0: "fst g0 = None"
    unfolding g0_def by (rule get_miss) (rule ab0 [OF k0])
  define S1 where "S1 = S\<lparr>cache_vars := snd g0\<rparr>"
  define S2 where "S2 = S1\<lparr>remote := ([], log @ [request 2 1 0 0])\<rparr>"
  define S3 where "S3 = cache_put 0 0 (buf 0) S2"
  have b0: "bus ?cfg ?net (request 2 1 0 0) 0 buf S1 = (status_bit_set (request 2 1 0 0), buf, S2)"
    by (simp add: bus_sample S1_def S_def S2_def)
  have step0: "read_loop ?cfg ?net 0 0 (0 # [1]) (0, 0, buf, S) =
      read_loop ?cfg ?net 0 0 [1] (request 2 1 0 0, status_bit_set (request 2 1 0 0), buf, S3)"
    using read_loop_miss [of S 0 0 0 S1 "request 2 1 0 0" ?cfg ?net buf
        "status_bit_set (request 2 1 0 0)" buf S2 "[1]" 0 0] miss0 b0
    by (simp add: S_def g0_def S1_def S3_def rd)
  have c3: "cache_vars S3 = snd (put_raid_cache 0 0 (buf 0) (snd g0))"
    by (simp add: S3_def cache_put_def S2_def S1_def)
  have wf1: "cache_wf fresh0 (snd g0)" unfolding g0_def using wf0 by (rule cache_wf_get)
  have m1: "glob_max_items (snd g0) = 2" by (simp add: g0_def m0)
  have ab1: "\<forall>i < glob_max_items (snd g0). key_of (cacheArray (snd g0) ! i) \<noteq> (0, 1)"
    using get_absent [OF ab0 [OF k1], of 0 0] by (simp add: g0_def m0)
  have ab3: "\<forall>i < glob_max_items (cache_vars S3). key_of (cacheArray (cache_vars S3) ! i) \<noteq> (0, 1)"
    unfolding c3 using put_absent [OF wf1 _ ab1, of 0 0 "buf 0"] by (simp add: m1)
  define g1 where "g1 = get_raid_cache 0 1 (cache_vars S3)"
  have miss1: "fst g1 = None"
    unfolding g1_def by (rule get_miss) (rule ab3)
  define S4 where "S4 = S3\<lparr>cache_vars := snd g1\<rparr>"
  define S5 where "S5 = S4\<lparr>remote := ([], log @ [request 2 1 0 0, request 2 1 0 1])\<rparr>"
  define S6 where "S6 = cache_put 0 1 (buf 1) S5"
  have t3: "Globtag S3 = (\<lambda>t j. \<lparr>disk = 0, diskPosition = int j, backupDisk = 1,
                                   backupDiskPosition = int j\<rparr>)"
    by (simp add: S3_def S2_def S1_def S_def)
  have r4: "remote S4 = ([], log @ [request 2 1 0 0])"
    by (simp add: S4_def S3_def S2_def)
  have b1: "bus ?cfg ?net (request 2 1 0 1) 1 buf S4 = (request 2 1 0 1, buf, S5)"
    by (simp add: bus_sample r4 S5_def)
  have step1: "read_loop ?cfg ?net 0 0 [1] (request 2 1 0 0, status_bit_set (request 2 1 0 0), buf, S3) =
      (request 2 1 0 1, request 2 1 0 1, buf, S6)"
    using read_loop_miss [of S3 0 0 1 S4 "request 2 1 0 1" ?cfg ?net buf
        "request 2 1 0 1" buf S5 "[]" "request 2 1 0 0" "status_bit_set (request 2 1 0 0)"] miss1 b1
    by (simp add: t3 g1_def S4_def S6_def rd)
  have l: "[0..<2] = [0, 1 :: nat]" by (simp add: upt_rec)
  have rl: "read_loop ?cfg ?net 0 0 [0..<2] (0, 0, buf, S) = (request 2 1 0 1, request 2 1 0 1, buf, S6)"
    unfolding l step0 step1 ..
  have rd: "tagline_read ?cfg ?net 0 0 2 buf S =
      (0, buf, snd (check_response ?cfg (request 2 1 0 1) (request 2 1 0 1) S6))"
    by (simp add: tagline_read_def rl split_def check_request_echo)
  have "snd (remote S6) = log @ [request 2 1 0 0, request 2 1 0 1]"
    by (simp add: S6_def S5_def)
  with rd have "fst (tagline_read ?cfg ?net 0 0 2 buf S) = 0 \<and>
      snd (remote (snd (snd (tagline_read ?cfg ?net 0 0 2 buf S)))) =
        log @ [request 2 1 0 0, request 2 1 0 1]"
    by simp
  then show ?thesis
    unfolding S_def c0_def by (simp add: extract_status_bit)
qed

subsection \<open>A rewrite of three contiguous blocks\<close>

lemma available_loop_tail:
  assumes "0 < k"
  shows "fst (available_loop row bnum [k..<n] (ba, ba2, bnum + k)) = ba \<and>
         fst (snd (available_loop row bnum [k..<n] (ba, ba2, bnum + k))) = ba2"
  using assms
proof (induction "n - k" arbitrary: k)
  case 0
  then show ?case by simp
next
  case (Suc m)
  then have kn: "k < n" and m: "m = n - Suc k" by simp_all
  have l: "[k..<n] = k # [Suc k..<n]" using kn by (rule upt_conv_Cons)
  have step: "available_loop row bnum [k..<n] (ba, ba2, bnum + k) =
      available_loop row bnum [Suc k..<n] (ba, ba2, bnum + Suc k)"
    using Suc.prems by (simp add: l)
  from Suc.hyps(1) [OF m] show ?case
    unfolding step by simp
qed

lemma available_at_most_two:
  "fst (available_loop row bnum [0..<n] (1, 1, bnum)) \<le> 2 \<and>
   fst (snd (available_loop row bnum [0..<n] (1, 1, bnum))) \<le> 2"
proof (cases n)
  case 0
  then show ?thesis by simp
next
  case (Suc m)
  have l: "[0..<n] = 0 # [1..<n]" using Suc by (simp add: upt_conv_Cons)
  obtain a b where step: "available_loop row bnum [0..<n] (1, 1, bnum) =
      available_loop row bnum [1..<n] (a, b, bnum + 1)" and ab: "a \<le> 2" "b \<le> 2"
    by (simp add: l)
  from available_loop_tail [of 1 row bnum n a b] ab show ?thesis
    unfolding step by simp
qed

lemma avoid_primary_keep:
  "x \<noteq> dsk \<Longrightarrow> y \<noteq> dsk \<Longrightarrow> avoid_primary cfg x y dsk rs = Some (dsk, rs)"
  by (subst avoid_primary.simps) simp

lemma avoid_mirror_keep:
  "x \<noteq> bdsk \<Longrightarrow> y \<noteq> bdsk \<Longrightarrow> avoid_mirror cfg x y bdsk rs = Some (bdsk, rs)"
  by (subst avoid_mirror.simps) simp

lemma issue_sample_echo:
  assumes "fst (remote s) = []"
  shows "fst (issue cfg sample_array (request t q d i) off buf s) = 0"
    and "fst (snd (issue cfg sample_array (request t q d i) off buf s)) = buf"
    and "remote (snd (snd (issue cfg sample_array (request t q d i) off buf s))) =
           ([], snd (remote s) @ [request t q d i])"
  using assms by (simp_all add: issue_def bus_sample split_def check_request_echo)


lemma rewrite_three_blocks:
  "\<exists>s'. tagline_write sample_config sample_array 0 0 3 buf
          (s\<lparr>Globtag := (\<lambda>t j. if j < 3 then \<lparr>disk = 0, diskPosition = int j, backupDisk = 1,
                                                    backupDiskPosition = int j\<rparr> else unassigned),
             tagcounter := (\<lambda>t. 3), rand_values := [0, 1], remote := ([], log)\<rparr>) = Some (0, buf, s') \<and>
        snd (remote s') = log @ [request 3 2 0 0, request 3 1 0 2, request 3 2 1 0, request 3 1 1 2]"
proof -
  let ?cfg = sample_config
  let ?net = sample_array
  define row where "row = (\<lambda>j :: nat. if j < 3 then \<lparr>disk = 0, diskPosition = int j, backupDisk = 1,
                                                    backupDiskPosition = int j\<rparr> else unassigned)"
  define S where "S = s\<lparr>Globtag := (\<lambda>t. row), tagcounter := (\<lambda>t. 3), rand_values := [0, 1],
      remote := ([], log)\<rparr>"
  define s0 where "s0 = S\<lparr>rand_values := []\<rparr>"
  have wr: "RAID_WRITE ?cfg = 3" by (simp add: sample_config_def)
  have r0: "row 0 = \<lparr>disk = 0, diskPosition = 0, backupDisk = 1, backupDiskPosition = 0\<rparr>"
    and r1: "row 1 = \<lparr>disk = 0, diskPosition = 1, backupDisk = 1, backupDiskPosition = 1\<rparr>"
    and r2: "row 2 = \<lparr>disk = 0, diskPosition = 2, backupDisk = 1, backupDiskPosition = 2\<rparr>"
    and r3: "row 3 = unassigned"
    by (simp_all add: row_def)
  have l3: "[0..<3] = [0, 1, 2 :: nat]" by (simp add: upt_rec)
  have av: "available_loop row 0 [0..<3] (1, 1, 0) = (2, 2, 3)"
    unfolding l3 by (simp add: row_def unassigned_def)
  text \<open>the primary side\<close>
  define s1 where "s1 = put_primary 0 0 buf [0..<2] s0"
  define s2 where "s2 = snd (snd (issue ?cfg ?net (request 3 2 0 0) 0 buf s1))"
  define s3 where "s3 = cache_put 0 2 (buf 2) (s2\<lparr>rand_values := []\<rparr>)"
  define s4 where "s4 = snd (snd (issue ?cfg ?net (request 3 1 0 2) 2 buf s3))"
  have g1: "Globtag s1 = (\<lambda>t. row)" "rand_values s1 = []" "remote s1 = ([], log)"
    by (simp_all add: s1_def s0_def S_def)
  have e1: "fst (remote s1) = []" by (simp add: g1)
  have g2: "Globtag s2 = (\<lambda>t. row)" "rand_values s2 = []" "remote s2 = ([], log @ [request 3 2 0 0])"
    by (simp_all add: s2_def g1 issue_sample_echo(3) [OF e1])
  have g3: "Globtag s3 = (\<lambda>t. row)" "rand_values s3 = []" "remote s3 = ([], log @ [request 3 2 0 0])"
    by (simp_all add: s3_def g2)
  have e3: "fst (remote s3) = []" by (simp add: g3)
  have g4: "Globtag s4 = (\<lambda>t. row)" "rand_values s4 = []"
    "remote s4 = ([], log @ [request 3 2 0 0, request 3 1 0 2])"
    by (simp_all add: s4_def g3 issue_sample_echo(3) [OF e3])
  have l1: "[0..<Suc 0] = [0 :: nat]" by simp
  have pr: "primary_rest ?cfg ?net 0 0 2 [0] (0, 2, buf, s2) = Some (0, 0, 3, buf, s4)"
    by (simp add: g2 r0 r2 avoid_primary_keep Let_def split_def wr s3_def [symmetric]
        issue_sample_echo(1,2) [OF e3] s4_def [symmetric])
  have pr': "primary_rest ?cfg ?net 0 0 2 [0] (0, Suc (Suc 0), buf, s2) = Some (0, 0, 3, buf, s4)"
    using pr by (simp only: numeral_2_eq_2 [symmetric])
  have p1: "rewrite_primary_whole ?cfg ?net 0 0 3 2 (0, 1, buf, s0) = Some (0, 0, 1, buf, s0)"
    by (simp add: rewrite_primary_whole_def)
  have p2: "rewrite_mirror_whole ?cfg ?net 0 0 3 2 (0, 1, buf, s0) = Some (0, 0, 1, buf, s0)"
    by (simp add: rewrite_mirror_whole_def)
  have p3: "rewrite_primary_split ?cfg ?net 0 0 3 2 (0, 1, buf, s0) = Some (0, 0, 1, buf, s4)"
    by (simp add: rewrite_primary_split_def Let_def split_def s1_def [symmetric] g1 r0 wr
        issue_sample_echo(1,2) [OF e1] s2_def [symmetric] l1 pr' del: primary_rest.simps)
  text \<open>the backup side\<close>
  define t1 where "t1 = put_mirror 0 0 buf [0..<2] s4"
  define t2 where "t2 = snd (snd (issue ?cfg ?net (request 3 2 1 0) 0 buf t1))"
  define t3 where "t3 = cache_put 1 2 (buf 2) (t2\<lparr>rand_values := []\<rparr>)"
  define t4 where "t4 = snd (snd (issue ?cfg ?net (request 3 1 1 2) 2 buf t3))"
  have h1: "Globtag t1 = (\<lambda>t. row)" "rand_values t1 = []"
    "remote t1 = ([], log @ [request 3 2 0 0, request 3 1 0 2])"
    by (simp_all add: t1_def g4)
  have f1: "fst (remote t1) = []" by (simp add: h1)
  have h2: "Globtag t2 = (\<lambda>t. row)" "rand_values t2 = []"
    "remote t2 = ([], log @ [request 3 2 0 0, request 3 1 0 2, request 3 2 1 0])"
    by (simp_all add: t2_def h1 issue_sample_echo(3) [OF f1])
  have h3: "Globtag t3 = (\<lambda>t. row)" "rand_values t3 = []"
    "remote t3 = ([], log @ [request 3 2 0 0, request 3 1 0 2, request 3 2 1 0])"
    by (simp_all add: t3_def h2)
  have f3: "fst (remote t3) = []" by (simp add: h3)
  have h4: "remote t4 = ([], log @ [request 3 2 0 0, request 3 1 0 2, request 3 2 1 0, request 3 1 1 2])"
    by (simp add: t4_def h3 issue_sample_echo(3) [OF f3])
  have mr: "mirror_rest ?cfg ?net 0 0 2 2 [0] (1, 2, buf, t2) = Some (0, 1, 3, buf, t4)"
    by (simp add: h2 r0 r2 avoid_mirror_keep Let_def split_def wr t3_def [symmetric]
        issue_sample_echo(1,2) [OF f3] t4_def [symmetric])
  have mr': "mirror_rest ?cfg ?net 0 0 2 2 [0] (1, Suc (Suc 0), buf, t2) = Some (0, 1, 3, buf, t4)"
    using mr by (simp only: numeral_2_eq_2 [symmetric])
  have p4: "rewrite_mirror_split ?cfg ?net 0 0 3 2 2 (0, 1, buf, s4) = Some (0, 0, 1, buf, t4)"
    by (simp add: rewrite_mirror_split_def Let_def split_def t1_def [symmetric] h1 r0 wr
        issue_sample_echo(1,2) [OF f1] t2_def [symmetric] l1 mr' del: mirror_rest.simps)
  have md: "0 mod RAID_DISKS ?cfg = 0" "1 mod RAID_DISKS ?cfg = 1"
    by (simp_all add: sample_config_def)
  have ch: "chooseDisk ?cfg (Some 0) (Some 1) 3 [] = Some (Some 0, Some 1, [])"
    by (simp add: chooseDisk_def)
  have rv: "rand_values S = [0, 1]" and tc: "tagcounter S 0 = 3"
    by (simp_all add: S_def)
  have nd: "RAID_DISKS ?cfg \<noteq> Suc 0"
    by (simp add: sample_config_def)
  have gt: "Globtag S 0 = row" "Globtag s0 0 = row"
    by (simp_all add: s0_def S_def)
  have av': "available_loop row 0 [0..<3] (Suc 0, Suc 0, 0) = (2, 2, 3)"
    using av by simp
  have "tagline_write ?cfg ?net 0 0 3 buf S = Some (0, buf, t4)"
    by (simp add: tagline_write_def rv tc md nd ch Let_def s0_def [symmetric] gt av' p1 p2 p3 p4
        and_then_def)
  with h4 show ?thesis
    unfolding S_def row_def by simp
qed

text \<open>
  C4.  The loop of \<^verbatim>\<open>tagline_write\<close> that counts the blocks available contiguously never
  counts more than 2 on either side, whatever the table holds and however many blocks
  are rewritten: from its second iteration on, the fourth conjunct of its condition
  compares a position with itself plus \<open>i\<close>.  Accordingly, on the sample configuration a
  rewrite of three blocks that lie at positions 0, 1, 2 of disk 0 and are mirrored at
  positions 0, 1, 2 of disk 1 issues four WRITE requests against an array that echoes:
  two blocks and one block to disk 0, two blocks and one block to disk 1.
\<close>

theorem rewrite_not_batched:
  "fst (available_loop row bnum [0..<blks] (1, 1, bnum)) \<le> 2 \<and>
   fst (snd (available_loop row bnum [0..<blks] (1, 1, bnum))) \<le> 2 \<and>
   (\<exists>s'. tagline_write sample_config sample_array 0 0 3 buf
          (s\<lparr>Globtag := (\<lambda>t j. if j < 3 then \<lparr>disk = 0, diskPosition = int j, backupDisk = 1,
                                                    backupDiskPosition = int j\<rparr> else unassigned),
             tagcounter := (\<lambda>t. 3), rand_values := [0, 1], remote := ([], log)\<rparr>) = Some (0, buf, s') \<and>
        snd (remote s') = log @ [request 3 2 0 0, request 3 1 0 2, request 3 2 1 0, request 3 1 1 2])"
  using available_at_most_two [of row bnum blks] rewrite_three_blocks [where buf = buf and s = s and log = log]
  by (intro conjI) simp_all

end
